theory Spec2Isabelle
  imports Main "HOL-Library.Char_ord"
begin

section \<open>String utilities (argparse\_util.cpp)\<close>

text \<open>
  A \<^verbatim>\<open>std::string\<close> is a sequence of bytes, here a \<^typ>\<open>string\<close>.  The iterator of
  \<^verbatim>\<open>split_leading_dashes\<close> is the offset \<open>iter\<close> into the string; the loop
  \<^verbatim>\<open>while (*iter == '-') ++iter;\<close> stops at the first byte that is not a dash, which at
  the end of the string is the terminating NUL.
\<close>

function skip_dashes :: "string \<Rightarrow> nat \<Rightarrow> nat" where
  "skip_dashes str iter =
     (if iter < length str \<and> str ! iter = CHR ''-'' then skip_dashes str (iter + 1) else iter)"
  by pat_completeness auto
termination
  by (relation "measure (\<lambda>(str, iter). length str - iter)") auto

declare skip_dashes.simps [simp del]

definition split_leading_dashes :: "string \<Rightarrow> string \<times> string" where
  "split_leading_dashes str =
     (let iter = skip_dashes str 0;
          dashes = take iter str;
          name = drop iter str
      in (dashes, name))"

definition is_argument :: "string \<Rightarrow> bool" where
  "is_argument str =
     (if length str = 2 \<and> str ! 0 = CHR ''-'' \<and> str ! 1 \<noteq> CHR ''-'' then True
      else if length str > 2 \<and> str ! 0 = CHR ''-'' \<and> str ! 1 = CHR ''-'' \<and> str ! 2 \<noteq> CHR ''-''
        then True
      else False)"

text \<open>
  \<^verbatim>\<open>::toupper\<close> of the C library in the "C" locale: the letters \<open>a\<close> to \<open>z\<close> move to
  \<open>A\<close> to \<open>Z\<close>, every other byte is returned as it is.
\<close>

definition c_toupper :: "char \<Rightarrow> char" where
  "c_toupper c =
     (if CHR ''a'' \<le> c \<and> c \<le> CHR ''z'' then char_of (of_char c - (32 :: nat)) else c)"

primrec toupper :: "string \<Rightarrow> string" where
  "toupper [] = []"
| "toupper (c # str) = c_toupper c # toupper str"

text \<open>Decimal rendering of a \<^verbatim>\<open>size_t\<close> by \<^verbatim>\<open>operator<<\<close>.\<close>

fun string_of_nat :: "nat \<Rightarrow> string" where
  "string_of_nat n =
     (if n < 10 then [char_of (48 + n)]
      else string_of_nat (n div 10) @ [char_of (48 + n mod 10)])"

declare string_of_nat.simps [simp del]

text \<open>The text \<^verbatim>\<open>'s'\<close>: a string between two apostrophes, as the messages print it.\<close>

definition quoted :: "string \<Rightarrow> string" where
  "quoted s = CHR 0x27 # s @ [CHR 0x27]"


section \<open>Errors\<close>

text \<open>
  \<open>ArgParseError\<close> is the exception of the library with its message.  \<open>CStringThrown\<close> is
  the \<^verbatim>\<open>throw ("...")\<close> of a string literal in \<^verbatim>\<open>Argument::action\<close>.  A failed
  \<^verbatim>\<open>assert\<close> aborts the program: \<open>AssertionFailed\<close>.
\<close>

datatype error = ArgParseError string | CStringThrown string | AssertionFailed


section \<open>Argument\<close>

datatype Action = STORE | STORE_TRUE | STORE_FALSE

text \<open>
  The enumeration \<^verbatim>\<open>ShowIn\<close> is declared in the header; a value of it is kept as its
  underlying integer.
\<close>

type_synonym ShowIn = nat

text \<open>
  The members of \<^verbatim>\<open>class Argument\<close>, each under the name of its accessor
  (\<open>required_flag\<close> is the member behind \<^verbatim>\<open>required()\<close>, which has logic of its own).

  Modelled from the spec: the destination bound to an Argument and its two entry points
  \<^verbatim>\<open>set_dest_to_default\<close> and \<^verbatim>\<open>set_dest_to_value_from_str\<close> are declared in the
  header, which is not among the sources.  The spec says that the Argument owns the
  storage that receives the parsed value and that these two are the mutation entry
  points.  The field \<open>dest\<close> is that storage, holding the value in its string form.
\<close>

record Argument =
  long_option :: string
  short_option :: string
  help_text :: string
  nargs :: char
  metavar :: string
  choices :: "string list"
  action :: Action
  required_flag :: bool
  default_value :: string
  default_set :: bool
  group_name :: string
  show_in :: ShowIn
  dest :: string

text \<open>
  Modelled from the spec: \<^verbatim>\<open>set_dest_to_default\<close> applies the configured default to
  the destination.
\<close>

definition set_dest_to_default :: "Argument \<Rightarrow> Argument" where
  "set_dest_to_default this = this\<lparr>dest := default_value this\<rparr>"

text \<open>
  Modelled from the spec: \<^verbatim>\<open>set_dest_to_value_from_str\<close> is the value-setting step.
  The spec says that \<open>choices\<close> is an optional closed set of allowed string values which
  the value-setting step must validate, and that every failure is a parsing error with a
  descriptive message.  So a value outside a non-empty \<open>choices\<close> is refused with a
  parsing error and the destination is left as it is; any other value is bound to the
  destination.  The spec fixes the kind of the failure and not its wording: the text of
  \<open>invalid_choice\<close> names the value and the Argument, and no statement below depends on it.
\<close>

definition invalid_choice :: "string \<Rightarrow> Argument \<Rightarrow> error" where
  "invalid_choice v this =
     ArgParseError (''Unexpected value '' @ quoted v @ '' for '' @ quoted (long_option this))"

definition set_dest_to_value_from_str :: "string \<Rightarrow> Argument \<Rightarrow> error + Argument" where
  "set_dest_to_value_from_str v this =
     (if choices this \<noteq> [] \<and> v \<notin> set (choices this) then Inl (invalid_choice v this)
      else Inr (this\<lparr>dest := v\<rparr>))"

text \<open>
  The constructor.  The initial values of the members it does not assign come from the
  class declaration: \<open>init\<close> is the object with those members initialised.
\<close>

definition Argument_ctor :: "Argument \<Rightarrow> string \<Rightarrow> string \<Rightarrow> error + Argument" where
  "Argument_ctor init long_opt short_opt =
     (let this = init\<lparr>long_option := long_opt, short_option := short_opt\<rparr> in
      if length (long_option this) < 1
        then Inl (ArgParseError ''Argument must be at least one character long'')
      else
        let dashes_name = split_leading_dashes (long_option this) in
        if length (fst dashes_name) = 1 \<and> short_option this \<noteq> []
          then Inl (ArgParseError ''Long option must be specified before short option'')
        else if length (fst dashes_name) > 2
          then Inl (ArgParseError ''More than two dashes in argument name'')
        else Inr (this\<lparr>metavar := toupper (snd dashes_name)\<rparr>))"

text \<open>
  A mutator returns \<^verbatim>\<open>*this\<close> or throws; the object lives on after a throw.  The
  result is the exception thrown, if any, and the object as the call leaves it.

  \<^verbatim>\<open>join\<close> is a template of the header; it is a parameter here.  The array
  \<^verbatim>\<open>std::array<char,5> valid_nargs = {'0', '1'}\<close> has five elements, the last three
  value-initialised to NUL.
\<close>

definition valid_nargs :: "char list" where
  "valid_nargs = [CHR ''0'', CHR ''1'', CHR 0x00, CHR 0x00, CHR 0x00]"

definition Argument_nargs ::
  "(char list \<Rightarrow> string \<Rightarrow> string) \<Rightarrow> char \<Rightarrow> Argument \<Rightarrow> error option \<times> Argument" where
  "Argument_nargs join nargs_type this =
     (if find (\<lambda>c. c = nargs_type) valid_nargs = None
        then (Some (ArgParseError (''Invalid argument to nargs (must be one of: ''
                                    @ join valid_nargs '', '' @ '')'')), this)
      else if action this = STORE_FALSE \<and> nargs_type \<noteq> CHR ''0''
        then (Some (ArgParseError (''STORE_FALSE action requires nargs to be '' @ quoted ''0'')), this)
      else if action this = STORE_TRUE \<and> nargs_type \<noteq> CHR ''0''
        then (Some (ArgParseError (''STORE_TRUE action requires nargs to be '' @ quoted ''0'')), this)
      else if action this = STORE \<and> nargs_type \<noteq> CHR ''1''
        then (Some (ArgParseError (''STORE action requires nargs to be '' @ quoted ''1'')), this)
      else (None, this\<lparr>nargs := nargs_type\<rparr>))"

definition Argument_action ::
  "(char list \<Rightarrow> string \<Rightarrow> string) \<Rightarrow> Action \<Rightarrow> Argument \<Rightarrow> error option \<times> Argument" where
  "Argument_action join action_type this =
     (let this1 = this\<lparr>action := action_type\<rparr> in
      if action this1 = STORE_FALSE \<or> action this1 = STORE_TRUE
        then Argument_nargs join (CHR ''0'') this1
      else if action this1 = STORE
        then Argument_nargs join (CHR ''1'') this1
      else (Some (CStringThrown ''Unrecognized argparse action''), this1))"

definition Argument_help :: "string \<Rightarrow> Argument \<Rightarrow> error option \<times> Argument" where
  "Argument_help help_str this = (None, this\<lparr>help_text := help_str\<rparr>)"

definition Argument_metavar :: "string \<Rightarrow> Argument \<Rightarrow> error option \<times> Argument" where
  "Argument_metavar metavar_str this = (None, this\<lparr>metavar := metavar_str\<rparr>)"

definition Argument_choices :: "string list \<Rightarrow> Argument \<Rightarrow> error option \<times> Argument" where
  "Argument_choices choice_values this = (None, this\<lparr>choices := choice_values\<rparr>)"

definition Argument_required :: "bool \<Rightarrow> Argument \<Rightarrow> error option \<times> Argument" where
  "Argument_required is_required this = (None, this\<lparr>required_flag := is_required\<rparr>)"

definition Argument_default_value :: "string \<Rightarrow> Argument \<Rightarrow> error option \<times> Argument" where
  "Argument_default_value v this = (None, this\<lparr>default_value := v, default_set := True\<rparr>)"

definition Argument_group_name :: "string \<Rightarrow> Argument \<Rightarrow> error option \<times> Argument" where
  "Argument_group_name grp this = (None, this\<lparr>group_name := grp\<rparr>)"

definition Argument_show_in :: "ShowIn \<Rightarrow> Argument \<Rightarrow> error option \<times> Argument" where
  "Argument_show_in show this = (None, this\<lparr>show_in := show\<rparr>)"

text \<open>
  A call of one mutator, as data, and a chain of such calls on one object.  A caller that
  catches the exception of a call goes on with the object as that call left it.
\<close>

datatype mutator =
    Help string
  | Nargs char
  | Metavar string
  | Choices "string list"
  | SetAction Action
  | Required bool
  | Default_value string
  | Group_name string
  | Show_in ShowIn

fun call_mutator ::
  "(char list \<Rightarrow> string \<Rightarrow> string) \<Rightarrow> mutator \<Rightarrow> Argument \<Rightarrow> error option \<times> Argument" where
  "call_mutator join (Help s) this = Argument_help s this"
| "call_mutator join (Nargs c) this = Argument_nargs join c this"
| "call_mutator join (Metavar s) this = Argument_metavar s this"
| "call_mutator join (Choices cs) this = Argument_choices cs this"
| "call_mutator join (SetAction a) this = Argument_action join a this"
| "call_mutator join (Required b) this = Argument_required b this"
| "call_mutator join (Default_value s) this = Argument_default_value s this"
| "call_mutator join (Group_name s) this = Argument_group_name s this"
| "call_mutator join (Show_in s) this = Argument_show_in s this"

fun call_mutators ::
  "(char list \<Rightarrow> string \<Rightarrow> string) \<Rightarrow> mutator list \<Rightarrow> Argument \<Rightarrow> Argument" where
  "call_mutators join [] this = this"
| "call_mutators join (mu # mus) this = call_mutators join mus (snd (call_mutator join mu this))"

text \<open>\<^verbatim>\<open>positional()\<close> asserts that the long name has more than one character.\<close>

definition positional :: "Argument \<Rightarrow> error + bool" where
  "positional this =
     (if length (long_option this) > 1 then Inr (long_option this ! 0 \<noteq> CHR ''-'')
      else Inl AssertionFailed)"

definition required :: "Argument \<Rightarrow> error + bool" where
  "required this =
     (case positional this of
        Inl e \<Rightarrow> Inl e
      | Inr p \<Rightarrow> if p then Inr True else Inr (required_flag this))"


section \<open>ArgumentGroup and ArgumentParser\<close>

text \<open>
  The groups hold \<^verbatim>\<open>std::shared_ptr<Argument>\<close>: an Argument is an object of a heap,
  reached through its address from the groups, the lookup table, the positional queue
  and the returned list alike.  A shared pointer that is held keeps its object alive, so
  the heap is total.
\<close>

type_synonym addr = nat
type_synonym heap = "addr \<Rightarrow> Argument"

record ArgumentGroup =
  grp_name :: string
  grp_epilog :: string
  arguments :: "addr list"

record ArgumentParser =
  prog :: string
  description :: string
  epilog :: string
  argument_groups :: "ArgumentGroup list"

definition ArgumentGroup_ctor :: "string \<Rightarrow> ArgumentGroup" where
  "ArgumentGroup_ctor name_str = \<lparr>grp_name = name_str, grp_epilog = [], arguments = []\<rparr>"

definition ArgumentParser_ctor :: "string \<Rightarrow> ArgumentParser" where
  "ArgumentParser_ctor description_str =
     \<lparr>prog = [], description = description_str, epilog = [],
      argument_groups = [ArgumentGroup_ctor ''arguments:'']\<rparr>"


section \<open>parse\_args\<close>

subsection \<open>Resetting the defaults\<close>

fun reset_group :: "addr list \<Rightarrow> heap \<Rightarrow> heap" where
  "reset_group [] h = h"
| "reset_group (arg # args) h =
     reset_group args (if default_set (h arg) then h(arg := set_dest_to_default (h arg)) else h)"

fun reset_defaults :: "ArgumentGroup list \<Rightarrow> heap \<Rightarrow> heap" where
  "reset_defaults [] h = h"
| "reset_defaults (grp # groups) h = reset_defaults groups (reset_group (arguments grp) h)"

subsection \<open>The look-up of option strings and the positional queue\<close>

type_synonym lookup = "string \<rightharpoonup> addr"

text \<open>The loop over \<^verbatim>\<open>{arg->long_option(), arg->short_option()}\<close>.\<close>

fun insert_options :: "addr \<Rightarrow> string list \<Rightarrow> lookup \<Rightarrow> error + lookup" where
  "insert_options arg [] str_to_option_arg = Inr str_to_option_arg"
| "insert_options arg (opt # opts) str_to_option_arg =
     (if opt = [] then insert_options arg opts str_to_option_arg
      else case str_to_option_arg opt of
          Some other \<Rightarrow>
            Inl (ArgParseError (''Option string '' @ quoted opt @ '' maps to multiple options''))
        | None \<Rightarrow> insert_options arg opts (str_to_option_arg(opt \<mapsto> arg)))"

fun lookup_group :: "addr list \<Rightarrow> heap \<Rightarrow> lookup \<times> addr list \<Rightarrow> error + lookup \<times> addr list" where
  "lookup_group [] h tables = Inr tables"
| "lookup_group (arg # args) h (str_to_option_arg, positional_args) =
     (case positional (h arg) of
        Inl e \<Rightarrow> Inl e
      | Inr True \<Rightarrow> lookup_group args h (str_to_option_arg, positional_args @ [arg])
      | Inr False \<Rightarrow>
          (case insert_options arg [long_option (h arg), short_option (h arg)] str_to_option_arg of
             Inl e \<Rightarrow> Inl e
           | Inr str_to_option_arg' \<Rightarrow> lookup_group args h (str_to_option_arg', positional_args)))"

fun lookup_groups ::
  "ArgumentGroup list \<Rightarrow> heap \<Rightarrow> lookup \<times> addr list \<Rightarrow> error + lookup \<times> addr list" where
  "lookup_groups [] h tables = Inr tables"
| "lookup_groups (grp # groups) h tables =
     (case lookup_group (arguments grp) h tables of
        Inl e \<Rightarrow> Inl e
      | Inr tables' \<Rightarrow> lookup_groups groups h tables')"

subsection \<open>Reading the values of a STORE option\<close>

text \<open>
  \<^verbatim>\<open>size_t\<close> values are natural numbers: every index computed is at most the number
  of tokens.  \<open>SIZE_MAX\<close> is \<^verbatim>\<open>std::numeric_limits<size_t>::max()\<close> of a 64-bit target.
\<close>

definition SIZE_MAX :: nat where
  "SIZE_MAX = 2 ^ 64 - 1"

text \<open>The pair is \<open>(max_values_to_read, min_values_to_read)\<close>.\<close>

definition values_to_read :: "char \<Rightarrow> error + nat \<times> nat" where
  "values_to_read n =
     (if n = CHR ''1'' then Inr (1, 1)
      else if n = CHR ''?'' then Inr (1, 0)
      else if n = CHR ''*'' then Inr (SIZE_MAX, 0)
      else if n = CHR ''+'' then Inr (SIZE_MAX, 1)
      else Inl AssertionFailed)"

text \<open>
  The loop \<^verbatim>\<open>for (nargs_read = 0; nargs_read < max_values_to_read; ++nargs_read)\<close>; the
  result is \<open>(nargs_read, values)\<close> when it ends or breaks.
\<close>

function read_values ::
  "string list \<Rightarrow> nat \<Rightarrow> nat \<Rightarrow> nat \<Rightarrow> string list \<Rightarrow> error + nat \<times> string list" where
  "read_values arg_strs i max_values_to_read nargs_read vals =
     (if nargs_read < max_values_to_read then
        (let next_idx = i + 1 + nargs_read in
         if next_idx \<ge> length arg_strs
           then Inl (ArgParseError (''Missing expected argument for '' @ quoted (arg_strs ! i)))
         else
           let str = arg_strs ! next_idx in
           if is_argument str then Inr (nargs_read, vals)
           else read_values arg_strs i max_values_to_read (nargs_read + 1) (vals @ [str]))
      else Inr (nargs_read, vals))"
  by pat_completeness auto
termination
  by (relation "measure (\<lambda>(arg_strs, i, mx, nargs_read, vals). length arg_strs - (i + nargs_read))")
     auto

declare read_values.simps [simp del]

subsection \<open>The scan of the tokens\<close>

record scan_state =
  idx :: nat
  positional_args :: "addr list"
  specified_arguments :: "addr list"
  hp :: heap

definition assert_that :: "bool \<Rightarrow> error + 'a \<Rightarrow> error + 'a" where
  "assert_that b k = (if b then k else Inl AssertionFailed)"

text \<open>
  The body of the loop over the tokens, for the token at \<open>idx\<close>.  The local
  \<^verbatim>\<open>value\<close> of the source is assigned for the flags and for a positional and is not
  read afterwards.
\<close>

definition process_token :: "string list \<Rightarrow> lookup \<Rightarrow> scan_state \<Rightarrow> error + scan_state" where
  "process_token arg_strs str_to_option_arg st =
     (let i = idx st in
      case str_to_option_arg (arg_strs ! i) of
        Some arg \<Rightarrow>
          (let st1 = st\<lparr>specified_arguments := specified_arguments st @ [arg]\<rparr> in
           if action (hp st1 arg) = STORE_TRUE then
             (let val = ''true'' in Inr st1)
           else if action (hp st1 arg) = STORE_FALSE then
             (let val = ''false'' in Inr st1)
           else
             assert_that (action (hp st1 arg) = STORE)
               (case values_to_read (nargs (hp st1 arg)) of
                  Inl e \<Rightarrow> Inl e
                | Inr (max_values_to_read, min_values_to_read) \<Rightarrow>
                    (case read_values arg_strs i max_values_to_read 0 [] of
                       Inl e \<Rightarrow> Inl e
                     | Inr (nargs_read, vals) \<Rightarrow>
                         if nargs_read < min_values_to_read then
                           Inl (ArgParseError (''Expected at least ''
                                  @ string_of_nat min_values_to_read
                                  @ '' values for argument '' @ quoted (arg_strs ! i)))
                         else
                           assert_that (nargs_read \<le> max_values_to_read)
                             (if nargs (hp st1 arg) = CHR ''1'' then
                                assert_that (nargs_read = 1)
                                  (assert_that (length vals = 1)
                                     (case set_dest_to_value_from_str (vals ! 0) (hp st1 arg) of
                                        Inl e \<Rightarrow> Inl e
                                      | Inr this' \<Rightarrow>
                                          Inr (st1\<lparr>hp := (hp st1)(arg := this'),
                                                  idx := i + nargs_read\<rparr>)))
                              else Inl AssertionFailed))))
      | None \<Rightarrow>
          (case positional_args st of
             [] \<Rightarrow>
               Inl (ArgParseError (''Unexpected command-line argument '' @ quoted (arg_strs ! i)))
           | arg # rest \<Rightarrow>
               (let val = arg_strs ! i in
                Inr (st\<lparr>positional_args := rest,
                        specified_arguments := specified_arguments st @ [arg]\<rparr>))))"

text \<open>The body never moves the index back, so the loop below terminates.\<close>

lemma process_token_idx:
  assumes "process_token arg_strs m st = Inr st'"
  shows "idx st \<le> idx st'"
proof (cases "m (arg_strs ! idx st)")
  case None
  with assms show ?thesis
    by (auto simp: process_token_def Let_def split: list.splits)
next
  case (Some arg)
  with assms show ?thesis
    by (auto simp: process_token_def Let_def assert_that_def
             split: if_splits sum.splits prod.splits)
qed

text \<open>
  The loop \<^verbatim>\<open>for (size_t i = 0; i < arg_strs.size(); i++)\<close> from the state \<open>st\<close> on.
  An exception leaves the heap as the iteration found it: every throw of the body comes
  before its one write, and the value-setting step that refuses a value writes nothing.
\<close>

function scan :: "string list \<Rightarrow> lookup \<Rightarrow> scan_state \<Rightarrow> error \<times> heap + scan_state" where
  "scan arg_strs str_to_option_arg st =
     (if idx st < length arg_strs then
        (case process_token arg_strs str_to_option_arg st of
           Inl e \<Rightarrow> Inl (e, hp st)
         | Inr st' \<Rightarrow> scan arg_strs str_to_option_arg (st'\<lparr>idx := idx st' + 1\<rparr>))
      else Inr st)"
  by pat_completeness auto
termination
proof (relation "measure (\<lambda>(arg_strs, m, st). length arg_strs - idx st)", goal_cases)
  case 1
  show ?case by simp
next
  case (2 arg_strs m st st')
  from 2(2) have "idx st \<le> idx st'" by (rule process_token_idx)
  with 2(1) show ?case by simp
qed

declare scan.simps [simp del]

text \<open>The loop over the positionals left in the queue throws at the first one.\<close>

definition missing_positionals :: "scan_state \<Rightarrow> error \<times> heap + addr list \<times> heap" where
  "missing_positionals st =
     (case positional_args st of
        remaining_positional # rest \<Rightarrow>
          Inl (ArgParseError (''Missing required positional argument: ''
                 @ long_option (hp st remaining_positional)), hp st)
      | [] \<Rightarrow> Inr (specified_arguments st, hp st))"

text \<open>
  \<^verbatim>\<open>parse_args\<close> on the token list: the exception and the heap it leaves, or the
  list of the specified Arguments and the heap.
\<close>

definition parse_args ::
  "ArgumentParser \<Rightarrow> heap \<Rightarrow> string list \<Rightarrow> error \<times> heap + addr list \<times> heap" where
  "parse_args parser h arg_strs =
     (let h1 = reset_defaults (argument_groups parser) h in
      case lookup_groups (argument_groups parser) h1 (Map.empty, []) of
        Inl e \<Rightarrow> Inl (e, h1)
      | Inr (str_to_option_arg, positional_args0) \<Rightarrow>
          (case scan arg_strs str_to_option_arg
                  \<lparr>idx = 0, positional_args = positional_args0,
                   specified_arguments = [], hp = h1\<rparr> of
             Inl eh \<Rightarrow> Inl eh
           | Inr st \<Rightarrow> missing_positionals st))"



section \<open>Notions used in the statements\<close>

text \<open>
  What a caller sees of a call: the exception or the returned list, and the heap the
  call leaves.
\<close>

definition outcome :: "error \<times> heap + addr list \<times> heap \<Rightarrow> error + addr list" where
  "outcome r = map_sum fst fst r"

definition final_heap :: "error \<times> heap + addr list \<times> heap \<Rightarrow> heap" where
  "final_heap r = (case r of Inl eh \<Rightarrow> snd eh | Inr ah \<Rightarrow> snd ah)"

text \<open>The exceptions of the look-ahead: out of tokens, and fewer values than the minimum.\<close>

definition missing_value :: "string \<Rightarrow> error" where
  "missing_value opt = ArgParseError (''Missing expected argument for '' @ quoted opt)"

definition too_few_values :: "nat \<Rightarrow> string \<Rightarrow> error" where
  "too_few_values n opt =
     ArgParseError (''Expected at least '' @ string_of_nat n @ '' values for argument '' @ quoted opt)"

text \<open>The tokens after position \<open>i\<close> up to the first option-shaped one.\<close>

definition value_run :: "string list \<Rightarrow> nat \<Rightarrow> string list" where
  "value_run arg_strs i = takeWhile (\<lambda>s. \<not> is_argument s) (drop (i + 1) arg_strs)"

text \<open>
  The heap \<open>h'\<close> is the heap \<open>h\<close> with values of the tokens written into destinations
  and nothing else changed.
\<close>

definition dest_written :: "string list \<Rightarrow> heap \<Rightarrow> heap \<Rightarrow> bool" where
  "dest_written arg_strs h h' \<longleftrightarrow>
     (\<forall>a. h' a = h a \<or> (\<exists>v \<in> set arg_strs. h' a = (h a)\<lparr>dest := v\<rparr>))"

text \<open>The registered Arguments, in group-then-insertion order.\<close>

definition registered :: "ArgumentParser \<Rightarrow> addr list" where
  "registered parser = concat (map arguments (argument_groups parser))"

text \<open>The exception of \<open>insert_options\<close> for the option string \<open>s\<close>.\<close>

definition collision :: "string \<Rightarrow> error" where
  "collision s = ArgParseError (''Option string '' @ quoted s @ '' maps to multiple options'')"

text \<open>
  The option strings an Argument claims when it is not a positional: its long and its
  short form, an empty form left out.
\<close>

definition claims :: "Argument \<Rightarrow> string set" where
  "claims a = {opt. opt \<noteq> [] \<and> (opt = long_option a \<or> opt = short_option a)}"


section \<open>Example configurations\<close>

text \<open>
  Concrete objects on which the theorems below are run: the members as a class
  declaration may initialise them, a \<^verbatim>\<open>join\<close>, and a heap of Arguments.
\<close>

definition example_members :: Argument where
  "example_members =
     \<lparr>long_option = [], short_option = [], help_text = [], nargs = CHR ''1'', metavar = [],
      choices = [], action = STORE, required_flag = False, default_value = [],
      default_set = False, group_name = [], show_in = 0, dest = []\<rparr>"

definition example_join :: "char list \<Rightarrow> string \<Rightarrow> string" where
  "example_join cs sep = concat (map (\<lambda>c. [c] @ sep) cs)"


text \<open>
  A STORE option \<open>--foo\<close> with the short form \<open>-f\<close>, two flags, two positionals, a
  second Argument that claims \<open>--foo\<close>, an option with choices, and an option with a
  default whose destination holds a stale value.
\<close>

definition opt_foo :: Argument where
  "opt_foo = example_members\<lparr>long_option := ''--foo'', short_option := ''-f'', metavar := ''FOO''\<rparr>"

definition opt_flag :: Argument where
  "opt_flag = example_members\<lparr>long_option := ''--flag'', metavar := ''FLAG'',
     action := STORE_TRUE, nargs := CHR ''0'', dest := ''false''\<rparr>"

definition opt_off :: Argument where
  "opt_off = example_members\<lparr>long_option := ''--off'', metavar := ''OFF'',
     action := STORE_FALSE, nargs := CHR ''0'', dest := ''true''\<rparr>"

definition pos_first :: Argument where
  "pos_first = example_members\<lparr>long_option := ''first'', metavar := ''FIRST''\<rparr>"

definition pos_second :: Argument where
  "pos_second = example_members\<lparr>long_option := ''second'', metavar := ''SECOND''\<rparr>"

definition opt_foo_again :: Argument where
  "opt_foo_again = example_members\<lparr>long_option := ''--foo'', metavar := ''FOO''\<rparr>"

definition opt_pick :: Argument where
  "opt_pick = example_members\<lparr>long_option := ''--pick'', metavar := ''PICK'',
     choices := [''a'', ''b'']\<rparr>"

definition opt_level :: Argument where
  "opt_level = example_members\<lparr>long_option := ''--level'', metavar := ''LEVEL'',
     default_value := ''3'', default_set := True, dest := ''9''\<rparr>"

definition example_heap :: heap where
  "example_heap = (\<lambda>a. example_members)
     (0 := opt_foo, 1 := opt_flag, 2 := opt_off, 3 := pos_first, 4 := pos_second,
      5 := opt_foo_again, 6 := opt_pick, 8 := opt_level)"

text \<open>A parser with one group for each given list of addresses.\<close>

definition example_parser :: "addr list list \<Rightarrow> ArgumentParser" where
  "example_parser argss =
     (ArgumentParser_ctor ''example'')
       \<lparr>argument_groups := map (\<lambda>args. (ArgumentGroup_ctor ''arguments:'')\<lparr>arguments := args\<rparr>) argss\<rparr>"




section \<open>Unfolding on the examples\<close>

lemmas example_objects =
  example_heap_def example_members_def opt_foo_def opt_flag_def opt_off_def pos_first_def
  pos_second_def opt_foo_again_def opt_pick_def opt_level_def

lemmas example_parser_simps =
  example_parser_def ArgumentParser_ctor_def ArgumentGroup_ctor_def registered_def

lemmas parse_steps =
  parse_args_def Let_def positional_def process_token_def missing_positionals_def
  assert_that_def values_to_read_def set_dest_to_value_from_str_def set_dest_to_default_def
  invalid_choice_def
  outcome_def final_heap_def quoted_def is_argument_def collision_def claims_def


section \<open>The option-token classifier\<close>

text \<open>
  C3: for every string \<open>s\<close>, \<open>is_argument s\<close> is true if and only if \<open>s\<close> has exactly 2
  characters with \<open>s[0] = '-'\<close> and \<open>s[1] \<noteq> '-'\<close>, or \<open>s\<close> has more than 2 characters
  with \<open>s[0] = '-'\<close>, \<open>s[1] = '-'\<close> and \<open>s[2] \<noteq> '-'\<close>.  Said with the shape of the
  string: \<open>s\<close> is a dash and one other character, or two dashes, a character that is not
  a dash, and any rest.  So \<open>-a\<close> and \<open>--ab\<close> are option-shaped, and \<open>-\<close>, \<open>--\<close>,
  \<open>---a\<close> and plain text are not.
\<close>

theorem is_argument_classifies:
  "(is_argument s \<longleftrightarrow>
      (length s = 2 \<and> s ! 0 = CHR ''-'' \<and> s ! 1 \<noteq> CHR ''-'') \<or>
      (length s > 2 \<and> s ! 0 = CHR ''-'' \<and> s ! 1 = CHR ''-'' \<and> s ! 2 \<noteq> CHR ''-''))
   \<and> (is_argument s \<longleftrightarrow>
      (\<exists>c. c \<noteq> CHR ''-'' \<and> s = [CHR ''-'', c]) \<or>
      (\<exists>c rest. c \<noteq> CHR ''-'' \<and> s = CHR ''-'' # CHR ''-'' # c # rest))
   \<and> is_argument ''-a'' \<and> is_argument ''--ab''
   \<and> \<not> is_argument ''-'' \<and> \<not> is_argument ''--''
   \<and> \<not> is_argument ''---a'' \<and> \<not> is_argument ''plain''"
proof -
  have index_form: "is_argument s \<longleftrightarrow>
      (length s = 2 \<and> s ! 0 = CHR ''-'' \<and> s ! 1 \<noteq> CHR ''-'') \<or>
      (length s > 2 \<and> s ! 0 = CHR ''-'' \<and> s ! 1 = CHR ''-'' \<and> s ! 2 \<noteq> CHR ''-'')"
    by (simp add: is_argument_def)
  have shape_form: "is_argument s \<longleftrightarrow>
      (\<exists>c. c \<noteq> CHR ''-'' \<and> s = [CHR ''-'', c]) \<or>
      (\<exists>c rest. c \<noteq> CHR ''-'' \<and> s = CHR ''-'' # CHR ''-'' # c # rest)"
  proof (cases s)
    case Nil
    then show ?thesis by (simp add: is_argument_def)
  next
    case s1: (Cons a s')
    show ?thesis
    proof (cases s')
      case Nil
      with s1 show ?thesis by (simp add: is_argument_def)
    next
      case s2: (Cons b s'')
      show ?thesis
      proof (cases s'')
        case Nil
        with s1 s2 show ?thesis by (auto simp: is_argument_def)
      next
        case (Cons c rest)
        with s1 s2 show ?thesis by (auto simp: is_argument_def)
      qed
    qed
  qed
  have examples: "is_argument ''-a''" "is_argument ''--ab''"
    "\<not> is_argument ''-''" "\<not> is_argument ''--''"
    "\<not> is_argument ''---a''" "\<not> is_argument ''plain''"
    by (simp_all add: is_argument_def)
  from index_form shape_form examples show ?thesis by blast
qed


section \<open>The Argument: default metavar and arity codes\<close>

lemma skip_dashes_takeWhile:
  "iter \<le> length str \<Longrightarrow>
   skip_dashes str iter = iter + length (takeWhile (\<lambda>c. c = CHR ''-'') (drop iter str))"
proof (induction str iter rule: skip_dashes.induct)
  case (1 str iter)
  show ?case
  proof (cases "iter < length str \<and> str ! iter = CHR ''-''")
    case True
    then have d: "drop iter str = CHR ''-'' # drop (iter + 1) str"
      by (metis Cons_nth_drop_Suc Suc_eq_plus1)
    from True have "skip_dashes str iter = skip_dashes str (iter + 1)"
      by (subst skip_dashes.simps) simp
    also from True have "\<dots> = iter + 1 + length (takeWhile (\<lambda>c. c = CHR ''-'') (drop (iter + 1) str))"
      by (intro "1.IH") auto
    finally show ?thesis using d by simp
  next
    case False
    then have "skip_dashes str iter = iter"
      by (subst skip_dashes.simps) auto
    moreover have "takeWhile (\<lambda>c. c = CHR ''-'') (drop iter str) = []"
    proof (cases "iter < length str")
      case True
      with False have "str ! iter \<noteq> CHR ''-''" by simp
      with True show ?thesis by (simp add: Cons_nth_drop_Suc [symmetric])
    next
      case False
      then show ?thesis by simp
    qed
    ultimately show ?thesis by simp
  qed
qed

lemma split_leading_dashes_eq:
  "split_leading_dashes str =
     (takeWhile (\<lambda>c. c = CHR ''-'') str, dropWhile (\<lambda>c. c = CHR ''-'') str)"
  using skip_dashes_takeWhile [of 0 str]
  by (simp add: split_leading_dashes_def Let_def takeWhile_eq_take [symmetric]
        dropWhile_eq_drop [symmetric])

lemma call_mutator_metavar:
  "(\<And>s. mu \<noteq> Metavar s) \<Longrightarrow> metavar (snd (call_mutator join mu this)) = metavar this"
  by (cases mu)
     (auto simp: Argument_help_def Argument_nargs_def Argument_choices_def Argument_action_def
        Argument_required_def Argument_default_value_def Argument_group_name_def
        Argument_show_in_def Let_def)

lemma call_mutators_metavar:
  "\<forall>mu \<in> set mus. \<forall>s. mu \<noteq> Metavar s \<Longrightarrow>
   metavar (call_mutators join mus this) = metavar this"
  by (induction mus arbitrary: this) (simp_all add: call_mutator_metavar)

lemma c_toupper_examples:
  "c_toupper CHR ''-'' = CHR ''-''" "c_toupper CHR ''f'' = CHR ''F''"
  "c_toupper CHR ''o'' = CHR ''O''"
  by code_simp+

lemma ctor_foo:
  "Argument_ctor example_members ''--foo'' [] =
     Inr (example_members\<lparr>long_option := ''--foo'', short_option := [], metavar := ''FOO''\<rparr>)"
  "Argument_ctor example_members ''foo'' [] =
     Inr (example_members\<lparr>long_option := ''foo'', short_option := [], metavar := ''FOO''\<rparr>)"
  by (simp_all add: Argument_ctor_def Let_def split_leading_dashes_eq c_toupper_examples)

text \<open>
  C9, as the claim states it, fails: the metavar set by the constructor is the upper-cased
  long name without its leading dashes.  An Argument constructed with the long name
  \<open>--foo\<close> has the metavar \<open>FOO\<close>, and the upper-casing of \<open>--foo\<close> is \<open>--FOO\<close>.
\<close>

theorem metavar_upper_long_name_counterexample:
  "Argument_ctor example_members ''--foo'' [] =
     Inr (example_members\<lparr>long_option := ''--foo'', short_option := [], metavar := ''FOO''\<rparr>)
   \<and> toupper ''--foo'' = ''--FOO''
   \<and> metavar (example_members\<lparr>long_option := ''--foo'', short_option := [], metavar := ''FOO''\<rparr>)
       \<noteq> toupper ''--foo''"
  by (simp add: ctor_foo c_toupper_examples)

text \<open>
  C9, amended: for every successfully constructed Argument on which \<open>metavar\<close> was never
  explicitly set, whatever other mutators were called on it, the metavar equals the
  upper-cased long name with its leading dashes removed; for a long name that does not
  start with a dash (a positional) that is the upper-cased long name itself.
\<close>

theorem metavar_default:
  "Argument_ctor init long_opt short_opt = Inr this \<Longrightarrow>
   \<forall>mu \<in> set mus. \<forall>s. mu \<noteq> Metavar s \<Longrightarrow>
   metavar (call_mutators join mus this) = toupper (dropWhile (\<lambda>c. c = CHR ''-'') long_opt)
   \<and> (long_opt ! 0 \<noteq> CHR ''-'' \<longrightarrow> metavar (call_mutators join mus this) = toupper long_opt)"
proof -
  assume ctor: "Argument_ctor init long_opt short_opt = Inr this"
    and mus: "\<forall>mu \<in> set mus. \<forall>s. mu \<noteq> Metavar s"
  from ctor have "metavar this = toupper (dropWhile (\<lambda>c. c = CHR ''-'') long_opt)"
    by (auto simp: Argument_ctor_def Let_def split_leading_dashes_eq split: if_splits)
  with mus have m: "metavar (call_mutators join mus this)
      = toupper (dropWhile (\<lambda>c. c = CHR ''-'') long_opt)"
    by (simp add: call_mutators_metavar)
  from ctor have "long_opt \<noteq> []"
    by (auto simp: Argument_ctor_def Let_def split: if_splits)
  then have "long_opt ! 0 \<noteq> CHR ''-'' \<longrightarrow> dropWhile (\<lambda>c. c = CHR ''-'') long_opt = long_opt"
    by (cases long_opt) auto
  with m show ?thesis by simp
qed

theorem metavar_default_witness:
  "Argument_ctor example_members ''--foo'' [] =
     Inr (example_members\<lparr>long_option := ''--foo'', short_option := [], metavar := ''FOO''\<rparr>)
   \<and> metavar (call_mutators example_join [Help ''h'', SetAction STORE_TRUE, Nargs CHR ''*'']
        (example_members\<lparr>long_option := ''--foo'', short_option := [], metavar := ''FOO''\<rparr>)) = ''FOO''
   \<and> Argument_ctor example_members ''foo'' [] =
     Inr (example_members\<lparr>long_option := ''foo'', short_option := [], metavar := ''FOO''\<rparr>)
   \<and> ''foo'' ! 0 \<noteq> CHR ''-''
   \<and> metavar (call_mutators example_join [Default_value ''d'']
        (example_members\<lparr>long_option := ''foo'', short_option := [], metavar := ''FOO''\<rparr>))
       = toupper ''foo''"
  using metavar_default [of example_members "''--foo''" "[]"
      "example_members\<lparr>long_option := ''--foo'', short_option := [], metavar := ''FOO''\<rparr>"
      "[Help ''h'', SetAction STORE_TRUE, Nargs CHR ''*'']" example_join]
    metavar_default [of example_members "''foo''" "[]"
      "example_members\<lparr>long_option := ''foo'', short_option := [], metavar := ''FOO''\<rparr>"
      "[Default_value ''d'']" example_join]
  by (simp add: ctor_foo c_toupper_examples)

text \<open>
  C10: \<open>Argument::nargs\<close> accepts exactly the arity codes \<open>0\<close> and \<open>1\<close>.  For every other
  character, the multi-value codes \<open>?\<close>, \<open>*\<close> and \<open>+\<close> among them, it raises a parsing
  error and leaves the object, so the stored arity, unchanged.  A call that succeeds
  stores the code; a call that throws changes nothing.
\<close>

theorem nargs_accepts_only_0_and_1:
  "(c \<noteq> CHR ''0'' \<and> c \<noteq> CHR ''1'' \<longrightarrow>
      (\<exists>msg. Argument_nargs join c this = (Some (ArgParseError msg), this)))
   \<and> ((\<exists>arg. fst (Argument_nargs join c arg) = None) \<longleftrightarrow> c = CHR ''0'' \<or> c = CHR ''1'')
   \<and> (\<forall>c' \<in> {CHR ''?'', CHR ''*'', CHR ''+''}.
        \<exists>msg. Argument_nargs join c' this = (Some (ArgParseError msg), this))
   \<and> (fst (Argument_nargs join c this) = None \<longrightarrow>
        snd (Argument_nargs join c this) = this\<lparr>nargs := c\<rparr>)
   \<and> (fst (Argument_nargs join c this) \<noteq> None \<longrightarrow>
        snd (Argument_nargs join c this) = this)"
proof -
  have rej: "d \<noteq> CHR ''0'' \<and> d \<noteq> CHR ''1'' \<longrightarrow>
      (\<exists>msg. Argument_nargs join d a = (Some (ArgParseError msg), a))" for d a
    by (cases "action a") (simp_all add: Argument_nargs_def valid_nargs_def)
  have acc0: "fst (Argument_nargs join (CHR ''0'') (this\<lparr>action := STORE_TRUE\<rparr>)) = None"
    by (simp add: Argument_nargs_def valid_nargs_def)
  have acc1: "fst (Argument_nargs join (CHR ''1'') (this\<lparr>action := STORE\<rparr>)) = None"
    by (simp add: Argument_nargs_def valid_nargs_def)
  have ex: "(\<exists>arg. fst (Argument_nargs join c arg) = None) \<longleftrightarrow> c = CHR ''0'' \<or> c = CHR ''1''"
  proof
    assume "\<exists>arg. fst (Argument_nargs join c arg) = None"
    then obtain arg where "fst (Argument_nargs join c arg) = None" ..
    with rej [of c arg] show "c = CHR ''0'' \<or> c = CHR ''1''" by auto
  next
    assume "c = CHR ''0'' \<or> c = CHR ''1''"
    with acc0 acc1 show "\<exists>arg. fst (Argument_nargs join c arg) = None" by blast
  qed
  have ok: "fst (Argument_nargs join c this) = None \<longrightarrow>
        snd (Argument_nargs join c this) = this\<lparr>nargs := c\<rparr>"
    by (simp add: Argument_nargs_def)
  have ko: "fst (Argument_nargs join c this) \<noteq> None \<longrightarrow>
        snd (Argument_nargs join c this) = this"
    by (simp add: Argument_nargs_def)
  from rej [of c this] rej [of _ this] ex ok ko show ?thesis by simp
qed

theorem nargs_accepts_only_0_and_1_witness:
  "CHR ''*'' \<noteq> CHR ''0'' \<and> CHR ''*'' \<noteq> CHR ''1''
   \<and> (\<exists>msg. Argument_nargs example_join (CHR ''*'') example_members
          = (Some (ArgParseError msg), example_members))
   \<and> fst (Argument_nargs example_join (CHR ''1'') example_members) = None
   \<and> snd (Argument_nargs example_join (CHR ''1'') example_members)
       = example_members\<lparr>nargs := CHR ''1''\<rparr>"
  using nargs_accepts_only_0_and_1 [of "CHR ''*''" example_join example_members]
    nargs_accepts_only_0_and_1 [of "CHR ''1''" example_join example_members]
  by (simp add: Argument_nargs_def valid_nargs_def example_members_def)


text \<open>
  The constructor does not write the arity, and the only mutator that writes it is
  \<open>Argument::nargs\<close>, called directly or through \<open>Argument::action\<close>.  So an Argument
  whose arity is \<open>0\<close> or \<open>1\<close> keeps such an arity through every chain of mutators: none
  of the multi-value codes can be configured.
\<close>

lemma call_mutator_arity:
  assumes "nargs this \<in> {CHR ''0'', CHR ''1''}"
  shows "nargs (snd (call_mutator join mu this)) \<in> {CHR ''0'', CHR ''1''}"
proof -
  have written: "nargs (snd (Argument_nargs join c a)) \<in> {CHR ''0'', CHR ''1''}"
    if "nargs a \<in> {CHR ''0'', CHR ''1''}" for c a
    using that by (cases "action a") (auto simp: Argument_nargs_def valid_nargs_def)
  show ?thesis
  proof (cases mu)
    case (Nargs c)
    with assms written show ?thesis by simp
  next
    case (SetAction act)
    from assms have "nargs (this\<lparr>action := act\<rparr>) \<in> {CHR ''0'', CHR ''1''}" by simp
    from written [OF this] SetAction show ?thesis
      by (cases act) (simp_all add: Argument_action_def Let_def)
  qed (use assms in \<open>simp_all add: Argument_help_def Argument_metavar_def Argument_choices_def
        Argument_required_def Argument_default_value_def Argument_group_name_def
        Argument_show_in_def\<close>)
qed

lemma multi_value_arity_not_configurable:
  "nargs this \<in> {CHR ''0'', CHR ''1''} \<Longrightarrow>
   nargs (call_mutators join mus this) \<in> {CHR ''0'', CHR ''1''}"
proof (induction mus arbitrary: this)
  case Nil
  then show ?case by simp
next
  case (Cons mu mus)
  from Cons.IH [OF call_mutator_arity [where join = join and mu = mu, OF Cons.prems]]
  show ?case by simp
qed

section \<open>The reset of the defaults\<close>

lemma reset_group_eq:
  "reset_group args h =
     (\<lambda>a. if a \<in> set args \<and> default_set (h a) then (h a)\<lparr>dest := default_value (h a)\<rparr> else h a)"
proof (induction args arbitrary: h)
  case Nil
  show ?case by simp
next
  case (Cons x xs)
  show ?case
    by (simp add: Cons.IH) (auto simp: fun_eq_iff set_dest_to_default_def)
qed

lemma reset_defaults_eq:
  "reset_defaults groups h =
     (\<lambda>a. if a \<in> set (concat (map arguments groups)) \<and> default_set (h a)
          then (h a)\<lparr>dest := default_value (h a)\<rparr> else h a)"
proof (induction groups arbitrary: h)
  case Nil
  show ?case by simp
next
  case (Cons g gs)
  show ?case
    by (simp add: Cons.IH reset_group_eq) (auto simp: fun_eq_iff)
qed

lemma scan_past_end: "length arg_strs \<le> idx st \<Longrightarrow> scan arg_strs m st = Inr st"
  by (subst scan.simps) simp

lemma final_heap_no_tokens:
  "final_heap (parse_args parser h []) = reset_defaults (argument_groups parser) h"
  by (simp add: parse_args_def Let_def final_heap_def scan_past_end missing_positionals_def
           split: sum.splits prod.splits list.splits)


section \<open>The look-up of option strings\<close>

lemma insert_options_error:
  "insert_options arg opts m = Inl e \<Longrightarrow> \<exists>s. e = collision s"
  by (induction opts arbitrary: m) (auto simp: collision_def split: if_splits option.splits)

lemma insert_options_dom:
  "insert_options arg opts m = Inr m' \<Longrightarrow>
   dom m \<subseteq> dom m' \<and> (\<forall>opt \<in> set opts. opt \<noteq> [] \<longrightarrow> opt \<in> dom m')"
proof (induction opts arbitrary: m)
  case Nil
  then show ?case by simp
next
  case (Cons opt opts)
  show ?case
  proof (cases "opt = []")
    case True
    with Cons show ?thesis by simp
  next
    case False
    with Cons.prems have free: "m opt = None"
      and rest: "insert_options arg opts (m(opt \<mapsto> arg)) = Inr m'"
      by (auto split: option.splits)
    from Cons.IH [OF rest] have sub: "dom (m(opt \<mapsto> arg)) \<subseteq> dom m'"
      and others: "\<forall>opt \<in> set opts. opt \<noteq> [] \<longrightarrow> opt \<in> dom m'"
      by blast+
    have "dom m \<subseteq> dom (m(opt \<mapsto> arg))" "opt \<in> dom (m(opt \<mapsto> arg))" by auto
    with sub have "dom m \<subseteq> dom m'" "opt \<in> dom m'" by blast+
    with others show ?thesis by simp
  qed
qed

lemma insert_options_taken:
  "opt \<in> set opts \<Longrightarrow> opt \<noteq> [] \<Longrightarrow> opt \<in> dom m \<Longrightarrow> \<exists>e. insert_options arg opts m = Inl e"
proof (induction opts arbitrary: m)
  case Nil
  then show ?case by simp
next
  case (Cons x opts)
  show ?case
  proof (cases "insert_options arg (x # opts) m")
    case (Inl e)
    then show ?thesis by blast
  next
    case (Inr m')
    from Cons.prems(3) obtain b where b: "m opt = Some b" by blast
    show ?thesis
    proof (cases "x = []")
      case True
      with Cons show ?thesis by auto
    next
      case False
      show ?thesis
      proof (cases "x = opt")
        case True
        with b False show ?thesis by simp
      next
        case neq: False
        with Cons.prems have "opt \<in> set opts" by simp
        moreover from neq Cons.prems(3) have "opt \<in> dom (m(x \<mapsto> arg))" by auto
        ultimately have "\<exists>e. insert_options arg opts (m(x \<mapsto> arg)) = Inl e"
          using Cons.prems(2) by (intro Cons.IH)
        with False show ?thesis by (auto split: option.splits)
      qed
    qed
  qed
qed

lemma lookup_group_step:
  "lookup_group (x # xs) h (m, pos) = Inr t \<Longrightarrow>
   \<exists>m1 pos1. lookup_group [x] h (m, pos) = Inr (m1, pos1) \<and> lookup_group xs h (m1, pos1) = Inr t
     \<and> dom m \<subseteq> dom m1 \<and> (positional (h x) \<noteq> Inr True \<longrightarrow> claims (h x) \<subseteq> dom m1)"
  by (auto simp: claims_def simp del: insert_options.simps
           split: sum.splits bool.splits dest!: insert_options_dom)

lemma lookup_group_taken:
  "x \<in> set xs \<Longrightarrow> positional (h x) \<noteq> Inr True \<Longrightarrow> opt \<in> claims (h x) \<Longrightarrow> opt \<in> dom m \<Longrightarrow>
   \<exists>e. lookup_group xs h (m, pos) = Inl e"
proof (induction xs arbitrary: m pos)
  case Nil
  then show ?case by simp
next
  case (Cons y ys)
  show ?case
  proof (cases "lookup_group (y # ys) h (m, pos)")
    case (Inl e)
    then show ?thesis by blast
  next
    case (Inr t)
    from lookup_group_step [OF Inr] obtain m1 pos1 where
      one: "lookup_group [y] h (m, pos) = Inr (m1, pos1)"
      and rest: "lookup_group ys h (m1, pos1) = Inr t"
      and mono: "dom m \<subseteq> dom m1" by blast
    show ?thesis
    proof (cases "y = x")
      case True
      from Cons.prems(3) have "opt \<in> set [long_option (h x), short_option (h x)]" "opt \<noteq> []"
        by (auto simp: claims_def)
      from insert_options_taken [OF this Cons.prems(4), of x]
      obtain e where "insert_options x [long_option (h x), short_option (h x)] m = Inl e" ..
      with one True Cons.prems(2) show ?thesis
        by (auto simp del: insert_options.simps split: sum.splits bool.splits)
    next
      case False
      with Cons.prems(1) have "x \<in> set ys" by simp
      moreover from mono Cons.prems(4) have "opt \<in> dom m1" by blast
      ultimately have "\<exists>e. lookup_group ys h (m1, pos1) = Inl e"
        using Cons.prems(2,3) by (intro Cons.IH)
      with rest show ?thesis by simp
    qed
  qed
qed

lemma lookup_group_collision:
  "a \<in> set xs \<Longrightarrow> b \<in> set xs \<Longrightarrow> a \<noteq> b \<Longrightarrow>
   positional (h a) \<noteq> Inr True \<Longrightarrow> positional (h b) \<noteq> Inr True \<Longrightarrow>
   opt \<in> claims (h a) \<Longrightarrow> opt \<in> claims (h b) \<Longrightarrow>
   \<exists>e. lookup_group xs h (m, pos) = Inl e"
proof (induction xs arbitrary: m pos)
  case Nil
  then show ?case by simp
next
  case (Cons y ys)
  show ?case
  proof (cases "lookup_group (y # ys) h (m, pos)")
    case (Inl e)
    then show ?thesis by blast
  next
    case (Inr t)
    from lookup_group_step [OF Inr] obtain m1 pos1 where
      rest: "lookup_group ys h (m1, pos1) = Inr t"
      and claimed: "positional (h y) \<noteq> Inr True \<longrightarrow> claims (h y) \<subseteq> dom m1" by blast
    have "\<exists>e. lookup_group ys h (m1, pos1) = Inl e"
    proof (cases "y = a")
      case True
      with Cons.prems have "b \<in> set ys" by auto
      moreover from True claimed Cons.prems have "opt \<in> dom m1" by blast
      ultimately show ?thesis using Cons.prems by (intro lookup_group_taken [of b])
    next
      case ya: False
      show ?thesis
      proof (cases "y = b")
        case True
        with Cons.prems have "a \<in> set ys" by auto
        moreover from True claimed Cons.prems have "opt \<in> dom m1" by blast
        ultimately show ?thesis using Cons.prems by (intro lookup_group_taken [of a])
      next
        case False
        with ya Cons.prems have "a \<in> set ys" "b \<in> set ys" by auto
        then show ?thesis using Cons.prems by (intro Cons.IH)
      qed
    qed
    with rest show ?thesis by simp
  qed
qed

lemma lookup_group_error:
  "lookup_group xs h t = Inl e \<Longrightarrow> \<forall>x \<in> set xs. 1 < length (long_option (h x)) \<Longrightarrow>
   \<exists>s. e = collision s"
proof (induction xs arbitrary: t)
  case Nil
  then show ?case by simp
next
  case (Cons x xs)
  obtain m pos where t: "t = (m, pos)" by (cases t)
  from Cons.prems(2) have p: "positional (h x) = Inr (long_option (h x) ! 0 \<noteq> CHR ''-'')"
    by (simp add: positional_def)
  from Cons.prems(2) have wf: "\<forall>x \<in> set xs. 1 < length (long_option (h x))" by simp
  show ?case
  proof (cases "long_option (h x) ! 0 \<noteq> CHR ''-''")
    case True
    with Cons.prems(1) p t have "lookup_group xs h (m, pos @ [x]) = Inl e" by simp
    from Cons.IH [OF this wf] show ?thesis .
  next
    case False
    show ?thesis
    proof (cases "insert_options x [long_option (h x), short_option (h x)] m")
      case (Inl e')
      with Cons.prems(1) p t False have "e = e'" by (simp del: insert_options.simps)
      with insert_options_error [OF Inl] show ?thesis by simp
    next
      case (Inr m')
      with Cons.prems(1) p t False have "lookup_group xs h (m', pos) = Inl e"
        by (simp del: insert_options.simps)
      from Cons.IH [OF this wf] show ?thesis .
    qed
  qed
qed

lemma lookup_group_append:
  "lookup_group (xs @ ys) h t =
     (case lookup_group xs h t of Inl e \<Rightarrow> Inl e | Inr t' \<Rightarrow> lookup_group ys h t')"
proof (induction xs arbitrary: t)
  case Nil
  show ?case by simp
next
  case (Cons x xs)
  obtain m pos where t: "t = (m, pos)" by (cases t)
  show ?case
    by (simp add: t Cons.IH del: insert_options.simps split: sum.splits bool.splits)
qed

lemma lookup_groups_flat:
  "lookup_groups groups h t = lookup_group (concat (map arguments groups)) h t"
  by (induction groups arbitrary: t) (simp_all add: lookup_group_append split: sum.splits)

text \<open>
  C4: if two different registered Arguments, neither of them a positional, claim the same
  option string (long or short form), every call to \<open>parse_args\<close> throws: the same
  exception for every token list, the empty one included, and the heap it leaves is the
  heap after the reset of the defaults, so no token has been examined.  When every
  registered long name has at least two characters, as \<open>positional()\<close> asserts, the
  exception is the parsing error "Option string ... maps to multiple options".
\<close>

theorem duplicate_option_string_fails:
  "a \<in> set (registered parser) \<Longrightarrow> b \<in> set (registered parser) \<Longrightarrow> a \<noteq> b \<Longrightarrow>
   positional (h a) \<noteq> Inr True \<Longrightarrow> positional (h b) \<noteq> Inr True \<Longrightarrow>
   opt \<in> claims (h a) \<Longrightarrow> opt \<in> claims (h b) \<Longrightarrow>
   \<exists>e. (\<forall>arg_strs. parse_args parser h arg_strs
             = Inl (e, reset_defaults (argument_groups parser) h))
      \<and> ((\<forall>x \<in> set (registered parser). 1 < length (long_option (h x)))
           \<longrightarrow> (\<exists>s. e = collision s))"
proof -
  assume a: "a \<in> set (registered parser)" and b: "b \<in> set (registered parser)"
    and ab: "a \<noteq> b"
    and pa: "positional (h a) \<noteq> Inr True" and pb: "positional (h b) \<noteq> Inr True"
    and ca: "opt \<in> claims (h a)" and cb: "opt \<in> claims (h b)"
  let ?gs = "argument_groups parser"
  let ?h1 = "reset_defaults ?gs h"
  have names: "long_option (?h1 x) = long_option (h x)" "short_option (?h1 x) = short_option (h x)"
    for x
    by (simp_all add: reset_defaults_eq)
  then have same: "positional (?h1 x) = positional (h x)" "claims (?h1 x) = claims (h x)" for x
    by (simp_all add: positional_def claims_def)
  from a b have "a \<in> set (concat (map arguments ?gs))" "b \<in> set (concat (map arguments ?gs))"
    by (simp_all add: registered_def)
  moreover from pa pb ca cb have "positional (?h1 a) \<noteq> Inr True" "positional (?h1 b) \<noteq> Inr True"
    "opt \<in> claims (?h1 a)" "opt \<in> claims (?h1 b)"
    by (simp_all add: same)
  ultimately have "\<exists>e. lookup_group (concat (map arguments ?gs)) ?h1 (Map.empty, []) = Inl e"
    using ab by (intro lookup_group_collision [of a _ b])
  then obtain e where e: "lookup_groups ?gs ?h1 (Map.empty, []) = Inl e"
    by (auto simp: lookup_groups_flat)
  then have all: "\<forall>arg_strs. parse_args parser h arg_strs = Inl (e, ?h1)"
    by (simp add: parse_args_def)
  have "\<exists>s. e = collision s" if wf: "\<forall>x \<in> set (registered parser). 1 < length (long_option (h x))"
  proof -
    from wf have wf1: "\<forall>x \<in> set (concat (map arguments ?gs)). 1 < length (long_option (?h1 x))"
      by (simp only: names registered_def)
    from e have "lookup_group (concat (map arguments ?gs)) ?h1 (Map.empty, []) = Inl e"
      by (simp only: lookup_groups_flat)
    from lookup_group_error [OF this wf1] show ?thesis .
  qed
  with all show ?thesis by blast
qed

theorem duplicate_option_string_fails_witness:
  "0 \<in> set (registered (example_parser [[0], [5]]))
   \<and> 5 \<in> set (registered (example_parser [[0], [5]]))
   \<and> (0 :: addr) \<noteq> 5
   \<and> positional (example_heap 0) = Inr False \<and> positional (example_heap 5) = Inr False
   \<and> ''--foo'' \<in> claims (example_heap 0) \<and> ''--foo'' \<in> claims (example_heap 5)
   \<and> (\<exists>e. \<forall>arg_strs. parse_args (example_parser [[0], [5]]) example_heap arg_strs
            = Inl (e, reset_defaults (argument_groups (example_parser [[0], [5]])) example_heap))
   \<and> outcome (parse_args (example_parser [[0], [5]]) example_heap []) = Inl (collision ''--foo'')"
proof -
  have hyps: "0 \<in> set (registered (example_parser [[0], [5]]))"
    "5 \<in> set (registered (example_parser [[0], [5]]))" "(0 :: addr) \<noteq> 5"
    "positional (example_heap 0) \<noteq> Inr True" "positional (example_heap 5) \<noteq> Inr True"
    "''--foo'' \<in> claims (example_heap 0)" "''--foo'' \<in> claims (example_heap 5)"
    by (simp_all add: example_objects example_parser_simps positional_def claims_def)
  from duplicate_option_string_fails [OF hyps]
  have "\<exists>e. \<forall>arg_strs. parse_args (example_parser [[0], [5]]) example_heap arg_strs
            = Inl (e, reset_defaults (argument_groups (example_parser [[0], [5]])) example_heap)"
    by blast
  moreover have "outcome (parse_args (example_parser [[0], [5]]) example_heap [])
      = Inl (collision ''--foo'')"
    by (simp add: parse_steps example_objects example_parser_simps)
  moreover have "positional (example_heap 0) = Inr False" "positional (example_heap 5) = Inr False"
    by (simp_all add: example_objects positional_def)
  ultimately show ?thesis using hyps by simp
qed


section \<open>The values of a STORE option\<close>

lemma value_run_next:
  assumes "n \<le> length (value_run toks i)" "i + 1 + n < length toks"
  shows "n < length (value_run toks i) \<longleftrightarrow> \<not> is_argument (toks ! (i + 1 + n))"
    and "n < length (value_run toks i) \<Longrightarrow> value_run toks i ! n = toks ! (i + 1 + n)"
proof -
  let ?rest = "drop (i + 1) toks"
  from assms(2) have n: "n < length ?rest" and nth: "?rest ! n = toks ! (i + 1 + n)"
    by simp_all
  show "n < length (value_run toks i) \<Longrightarrow> value_run toks i ! n = toks ! (i + 1 + n)"
    using nth by (simp add: value_run_def takeWhile_nth)
  show "n < length (value_run toks i) \<longleftrightarrow> \<not> is_argument (toks ! (i + 1 + n))"
  proof
    assume less: "n < length (value_run toks i)"
    then have "value_run toks i ! n \<in> set (value_run toks i)" by simp
    then have "\<not> is_argument (value_run toks i ! n)"
      unfolding value_run_def by (rule set_takeWhileD [THEN conjunct2])
    with less nth show "\<not> is_argument (toks ! (i + 1 + n))"
      by (simp add: value_run_def takeWhile_nth)
  next
    assume ok: "\<not> is_argument (toks ! (i + 1 + n))"
    show "n < length (value_run toks i)"
    proof (rule ccontr)
      assume "\<not> n < length (value_run toks i)"
      with assms(1) have len: "length (value_run toks i) = n" by simp
      with n have "length (takeWhile (\<lambda>s. \<not> is_argument s) ?rest) < length ?rest"
        by (simp add: value_run_def)
      from nth_length_takeWhile [OF this] len nth ok show False
        by (simp add: value_run_def)
    qed
  qed
qed

lemma value_run_length:
  "i + 1 + length (value_run toks i) \<le> length toks \<or> length (value_run toks i) = 0"
proof -
  have "length (value_run toks i) \<le> length (drop (i + 1) toks)"
    unfolding value_run_def by (rule length_takeWhile_le)
  then have "length (value_run toks i) \<le> length toks - (i + 1)" by simp
  then show ?thesis by arith
qed

lemma read_values_run:
  "n \<le> length (value_run toks i) \<Longrightarrow> n \<le> mx \<Longrightarrow> vs = take n (value_run toks i) \<Longrightarrow>
   read_values toks i mx n vs =
     (if mx \<le> length (value_run toks i) \<or> i + 1 + length (value_run toks i) < length toks
      then Inr (min mx (length (value_run toks i)), take mx (value_run toks i))
      else Inl (missing_value (toks ! i)))"
proof (induction toks i mx n vs rule: read_values.induct)
  case (1 toks i mx n vs)
  let ?run = "value_run toks i"
  show ?case
  proof (cases "n < mx")
    case False
    with "1.prems" have "n = mx" "mx \<le> length ?run" by simp_all
    with "1.prems" show ?thesis
      by (subst read_values.simps) simp
  next
    case more: True
    show ?thesis
    proof (cases "i + 1 + n < length toks")
      case False
      with value_run_length [of i toks] "1.prems"(1) have "length ?run = n" by auto
      with False more show ?thesis
        by (subst read_values.simps) (simp add: missing_value_def)
    next
      case inside: True
      show ?thesis
      proof (cases "is_argument (toks ! (i + 1 + n))")
        case True
        with value_run_next(1) [OF "1.prems"(1) inside] "1.prems"(1)
        have len: "length ?run = n" by simp
        with more inside True "1.prems"(3) show ?thesis
          by (subst read_values.simps) simp
      next
        case False
        with value_run_next [OF "1.prems"(1) inside]
        have less: "n < length ?run" and nth: "?run ! n = toks ! (i + 1 + n)" by simp_all
        from less nth "1.prems"(3)
        have vs': "vs @ [toks ! (i + 1 + n)] = take (n + 1) ?run"
          by (simp add: take_Suc_conv_app_nth)
        from more inside False
        have "read_values toks i mx n vs
            = read_values toks i mx (n + 1) (vs @ [toks ! (i + 1 + n)])"
          by (subst read_values.simps) (simp add: Let_def)
        also have "\<dots> = (if mx \<le> length ?run \<or> i + 1 + length ?run < length toks
            then Inr (min mx (length ?run), take mx ?run)
            else Inl (missing_value (toks ! i)))"
          using more inside False less vs'
          by (intro "1.IH") (simp_all add: Let_def)
        finally show ?thesis .
      qed
    qed
  qed
qed


lemma process_token_store:
  assumes "m (toks ! idx st) = Some arg" "action (hp st arg) = STORE"
    and "values_to_read (nargs (hp st arg)) = Inr (mx, mn)"
  shows "process_token toks m st =
     (if mx \<le> length (value_run toks (idx st))
         \<or> idx st + 1 + length (value_run toks (idx st)) < length toks
      then
        (if min mx (length (value_run toks (idx st))) < mn
           then Inl (too_few_values mn (toks ! idx st))
         else if nargs (hp st arg) = CHR ''1''
           then (case set_dest_to_value_from_str (value_run toks (idx st) ! 0) (hp st arg) of
                   Inl e \<Rightarrow> Inl e
                 | Inr this' \<Rightarrow>
                     Inr (st\<lparr>specified_arguments := specified_arguments st @ [arg],
                             hp := (hp st)(arg := this'), idx := idx st + 1\<rparr>))
         else Inl AssertionFailed)
      else Inl (missing_value (toks ! idx st)))"
proof -
  have rv: "read_values toks (idx st) mx 0 [] =
     (if mx \<le> length (value_run toks (idx st))
         \<or> idx st + 1 + length (value_run toks (idx st)) < length toks
      then Inr (min mx (length (value_run toks (idx st))), take mx (value_run toks (idx st)))
      else Inl (missing_value (toks ! idx st)))"
    by (rule read_values_run) simp_all
  from assms(3) have one: "nargs (hp st arg) = CHR ''1'' \<Longrightarrow> mx = 1 \<and> mn = 1"
    by (auto simp: values_to_read_def split: if_splits)
  show ?thesis
  proof (cases "nargs (hp st arg) = CHR ''1''")
    case True
    with one have mx: "mx = Suc 0" and mn: "mn = Suc 0" by simp_all
    from rv have rv1: "read_values toks (idx st) (Suc 0) 0 [] =
       (if Suc 0 \<le> length (value_run toks (idx st))
           \<or> idx st + 1 + length (value_run toks (idx st)) < length toks
        then Inr (min (Suc 0) (length (value_run toks (idx st))),
                  take (Suc 0) (value_run toks (idx st)))
        else Inl (missing_value (toks ! idx st)))"
      by (simp only: mx)
    from assms(3) have vr: "values_to_read (CHR ''1'') = Inr (Suc 0, Suc 0)"
      by (simp only: True mx mn)
    show ?thesis
    proof (cases "value_run toks (idx st)")
      case Nil
      with assms(1,2) True show ?thesis
        by (simp add: process_token_def Let_def rv1 vr mx mn assert_that_def too_few_values_def)
    next
      case (Cons v vs)
      with assms(1,2) True show ?thesis
        by (simp add: process_token_def Let_def rv1 vr mx mn assert_that_def
              split: sum.splits)
    qed
  next
    case False
    with assms show ?thesis
      by (simp add: process_token_def Let_def rv assert_that_def too_few_values_def)
  qed
qed

lemma scan_throws:
  "idx st < length toks \<Longrightarrow> process_token toks m st = Inl e \<Longrightarrow> scan toks m st = Inl (e, hp st)"
  by (subst scan.simps) simp

lemma scan_steps:
  "idx st < length toks \<Longrightarrow> process_token toks m st = Inr st' \<Longrightarrow>
   scan toks m st = scan toks m (st'\<lparr>idx := idx st' + 1\<rparr>)"
  by (subst scan.simps) simp

text \<open>
  The step of a STORE option with arity exactly-one whose next token is not
  option-shaped: the token goes to the value-setting step, and the scan goes on behind
  the value when that step returns.
\<close>

lemma process_token_store_one:
  assumes "m (toks ! idx st) = Some arg" "action (hp st arg) = STORE"
    and "nargs (hp st arg) = CHR ''1''"
    and "idx st + 1 < length toks" "\<not> is_argument (toks ! (idx st + 1))"
  shows "process_token toks m st =
     (case set_dest_to_value_from_str (toks ! (idx st + 1)) (hp st arg) of
        Inl e \<Rightarrow> Inl e
      | Inr this' \<Rightarrow>
          Inr (st\<lparr>specified_arguments := specified_arguments st @ [arg],
                  hp := (hp st)(arg := this'), idx := idx st + 1\<rparr>))"
proof -
  from assms(3) have bounds: "values_to_read (nargs (hp st arg)) = Inr (1, 1)"
    by (simp add: values_to_read_def)
  from assms(4,5) value_run_next [of 0 toks "idx st"]
  have "0 < length (value_run toks (idx st))" "value_run toks (idx st) ! 0 = toks ! (idx st + 1)"
    by simp_all
  with process_token_store
    [where toks = toks and m = m and st = st and arg = arg and mx = 1 and mn = 1,
     OF assms(1,2) bounds] assms(3)
  show ?thesis by (simp add: Suc_le_eq)
qed





section \<open>Flags and positionals\<close>

lemma flag_consumes_nothing:
  "m (toks ! idx st) = Some arg \<Longrightarrow> action (hp st arg) \<noteq> STORE \<Longrightarrow>
   process_token toks m st = Inr (st\<lparr>specified_arguments := specified_arguments st @ [arg]\<rparr>)"
  by (cases "action (hp st arg)") (simp_all add: process_token_def Let_def)

lemma positional_token_pops_queue:
  "m (toks ! idx st) = None \<Longrightarrow> positional_args st = arg # rest \<Longrightarrow>
   process_token toks m st
     = Inr (st\<lparr>positional_args := rest, specified_arguments := specified_arguments st @ [arg]\<rparr>)"
  by (simp add: process_token_def Let_def)

text \<open>
  C1 at a failing input: the flags \<open>--flag\<close> (STORE\_TRUE, destination \<open>false\<close>) and
  \<open>--off\<close> (STORE\_FALSE, destination \<open>true\<close>) are both given.  \<open>parse_args\<close> returns
  both as specified and consumes nothing else, and both destinations are as before: the
  literal assigned to the local \<open>value\<close> is never bound.
\<close>

theorem flag_value_not_bound:
  "action (example_heap 1) = STORE_TRUE \<and> action (example_heap 2) = STORE_FALSE
   \<and> dest (example_heap 1) = ''false'' \<and> dest (example_heap 2) = ''true''
   \<and> outcome (parse_args (example_parser [[1, 2]]) example_heap [''--flag'', ''--off''])
       = Inr [1, 2]
   \<and> dest (final_heap (parse_args (example_parser [[1, 2]]) example_heap [''--flag'', ''--off'']) 1)
       = ''false''
   \<and> dest (final_heap (parse_args (example_parser [[1, 2]]) example_heap [''--flag'', ''--off'']) 2)
       = ''true''"
  by (simp add: parse_steps example_parser_simps example_objects scan.simps read_values.simps)

text \<open>
  C2 at a failing input: the positionals \<open>first\<close> and \<open>second\<close>, registered in that
  order, and the tokens \<open>x\<close> and \<open>y\<close>.  \<open>parse_args\<close> pops both from the queue and
  returns them as specified, in order, and both destinations are empty as before: the
  token copied to the local \<open>value\<close> is never bound.
\<close>

theorem positional_value_not_bound:
  "positional (example_heap 3) = Inr True \<and> positional (example_heap 4) = Inr True
   \<and> outcome (parse_args (example_parser [[3, 4]]) example_heap [''x'', ''y'']) = Inr [3, 4]
   \<and> dest (final_heap (parse_args (example_parser [[3, 4]]) example_heap [''x'', ''y'']) 3) = []
   \<and> dest (final_heap (parse_args (example_parser [[3, 4]]) example_heap [''x'', ''y'']) 4) = []"
  by (simp add: parse_steps example_parser_simps example_objects scan.simps read_values.simps)

lemma process_token_queue:
  assumes "process_token toks m st = Inr st'"
  shows "\<exists>a. specified_arguments st' = specified_arguments st @ [a]
     \<and> (positional_args st' = positional_args st \<or> positional_args st = a # positional_args st')"
proof (cases "m (toks ! idx st)")
  case None
  with assms show ?thesis
    by (auto simp: process_token_def Let_def split: list.splits)
next
  case (Some arg)
  with assms show ?thesis
    by (auto simp: process_token_def Let_def assert_that_def
             split: if_splits sum.splits prod.splits)
qed

lemma scan_queue:
  "scan toks m st = Inr st' \<Longrightarrow>
   \<exists>used. positional_args st = used @ positional_args st'
     \<and> set used \<subseteq> set (specified_arguments st')
     \<and> set (specified_arguments st) \<subseteq> set (specified_arguments st')"
proof (induction toks m st rule: scan.induct)
  case (1 toks m st)
  show ?case
  proof (cases "idx st < length toks")
    case False
    with "1.prems" have "st' = st" by (subst (asm) scan.simps) simp
    then show ?thesis by simp
  next
    case True
    show ?thesis
    proof (cases "process_token toks m st")
      case (Inl e)
      with True "1.prems" show ?thesis by (subst (asm) scan.simps) simp
    next
      case (Inr st1)
      with True "1.prems" have "scan toks m (st1\<lparr>idx := idx st1 + 1\<rparr>) = Inr st'"
        by (subst (asm) scan.simps) simp
      from "1.IH" [OF True Inr this] obtain used where
        used: "positional_args st1 = used @ positional_args st'"
        "set used \<subseteq> set (specified_arguments st')"
        "set (specified_arguments st1) \<subseteq> set (specified_arguments st')"
        by auto
      from process_token_queue [OF Inr] obtain a where
        a: "specified_arguments st1 = specified_arguments st @ [a]"
        "positional_args st1 = positional_args st \<or> positional_args st = a # positional_args st1"
        by blast
      from a(2) show ?thesis
      proof
        assume "positional_args st1 = positional_args st"
        with used a(1) show ?thesis by auto
      next
        assume "positional_args st = a # positional_args st1"
        with used a(1) have "positional_args st = (a # used) @ positional_args st'"
          "set (a # used) \<subseteq> set (specified_arguments st')"
          "set (specified_arguments st) \<subseteq> set (specified_arguments st')"
          by auto
        then show ?thesis by blast
      qed
    qed
  qed
qed

lemma lookup_group_positionals:
  "lookup_group xs h (m, pos) = Inr (m', pos') \<Longrightarrow>
   pos' = pos @ filter (\<lambda>x. positional (h x) = Inr True) xs"
proof (induction xs arbitrary: m pos)
  case Nil
  then show ?case by simp
next
  case (Cons x xs)
  show ?case
  proof (cases "positional (h x) = Inr True")
    case True
    with Cons.prems have "lookup_group xs h (m, pos @ [x]) = Inr (m', pos')" by simp
    from Cons.IH [OF this] True show ?thesis by simp
  next
    case False
    with Cons.prems obtain m1 where "lookup_group xs h (m1, pos) = Inr (m', pos')"
      by (auto simp del: insert_options.simps split: sum.splits bool.splits)
    from Cons.IH [OF this] False show ?thesis by simp
  qed
qed

text \<open>
  C8: when the scan completes without error and a positional Argument is left in the
  queue, \<open>parse_args\<close> throws the parsing error "Missing required positional argument"
  with the long name of the first one left.  So a call that returns has every
  registered positional in its specified list.  In particular, with one positional
  registered and an empty input the error names that positional.
\<close>

theorem missing_positional_fails:
  "(lookup_groups (argument_groups parser) (reset_defaults (argument_groups parser) h)
        (Map.empty, []) = Inr (m, pos)
     \<and> scan arg_strs m \<lparr>idx = 0, positional_args = pos, specified_arguments = [],
                          hp = reset_defaults (argument_groups parser) h\<rparr> = Inr st
     \<and> positional_args st = a # rest
    \<longrightarrow> parse_args parser h arg_strs
          = Inl (ArgParseError (''Missing required positional argument: ''
                   @ long_option (hp st a)), hp st))
   \<and> (parse_args parser h arg_strs = Inr (specified, h')
    \<longrightarrow> (\<forall>x \<in> set (registered parser). positional (h x) = Inr True \<longrightarrow> x \<in> set specified))
   \<and> (registered parser = [a] \<and> positional (h a) = Inr True
    \<longrightarrow> parse_args parser h []
          = Inl (ArgParseError (''Missing required positional argument: '' @ long_option (h a)),
                 reset_defaults (argument_groups parser) h))"
proof -
  let ?gs = "argument_groups parser"
  let ?h1 = "reset_defaults ?gs h"
  have same: "positional (?h1 x) = positional (h x)" "long_option (?h1 x) = long_option (h x)" for x
    by (simp_all add: reset_defaults_eq positional_def)
  have left: "parse_args parser h arg_strs
          = Inl (ArgParseError (''Missing required positional argument: ''
                   @ long_option (hp st a)), hp st)"
    if "lookup_groups ?gs ?h1 (Map.empty, []) = Inr (m, pos)
      \<and> scan arg_strs m \<lparr>idx = 0, positional_args = pos, specified_arguments = [], hp = ?h1\<rparr>
          = Inr st
      \<and> positional_args st = a # rest"
    using that by (simp add: parse_args_def missing_positionals_def)
  have all_used: "\<forall>x \<in> set (registered parser). positional (h x) = Inr True \<longrightarrow> x \<in> set specified"
    if ok: "parse_args parser h arg_strs = Inr (specified, h')"
  proof -
    from ok obtain m0 pos0 where tables: "lookup_groups ?gs ?h1 (Map.empty, []) = Inr (m0, pos0)"
      by (auto simp: parse_args_def Let_def split: sum.splits)
    with ok obtain st0 where
      scanned: "scan arg_strs m0 \<lparr>idx = 0, positional_args = pos0, specified_arguments = [],
                                  hp = ?h1\<rparr> = Inr st0"
      and fin: "missing_positionals st0 = Inr (specified, h')"
      by (auto simp: parse_args_def Let_def split: sum.splits)
    from fin have empty: "positional_args st0 = []" and spec: "specified = specified_arguments st0"
      by (auto simp: missing_positionals_def split: list.splits)
    from tables have "lookup_group (registered parser) ?h1 (Map.empty, []) = Inr (m0, pos0)"
      by (simp only: lookup_groups_flat registered_def)
    from lookup_group_positionals [OF this]
    have "pos0 = filter (\<lambda>x. positional (?h1 x) = Inr True) (registered parser)"
      by simp
    then have pos0: "pos0 = filter (\<lambda>x. positional (h x) = Inr True) (registered parser)"
      by (simp only: same)
    from scan_queue [OF scanned] empty spec have "set pos0 \<subseteq> set specified" by auto
    with pos0 show ?thesis by auto
  qed
  have alone: "parse_args parser h []
          = Inl (ArgParseError (''Missing required positional argument: '' @ long_option (h a)), ?h1)"
    if "registered parser = [a] \<and> positional (h a) = Inr True"
  proof -
    from that have "lookup_groups ?gs ?h1 (Map.empty, []) = Inr (Map.empty, [a])"
      by (simp add: lookup_groups_flat registered_def [symmetric] same)
    then show ?thesis
      by (simp add: parse_args_def scan_past_end missing_positionals_def same)
  qed
  from left all_used alone show ?thesis by blast
qed

theorem missing_positional_fails_witness:
  "registered (example_parser [[3]]) = [3] \<and> positional (example_heap 3) = Inr True
   \<and> parse_args (example_parser [[3]]) example_heap []
       = Inl (ArgParseError (''Missing required positional argument: '' @ ''first''),
              reset_defaults (argument_groups (example_parser [[3]])) example_heap)
   \<and> outcome (parse_args (example_parser [[3, 4]]) example_heap [''x''])
       = Inl (ArgParseError (''Missing required positional argument: '' @ ''second''))"
proof -
  have hyps: "registered (example_parser [[3]]) = [3] \<and> positional (example_heap 3) = Inr True"
    by (simp add: example_parser_simps example_objects positional_def)
  have name: "long_option (example_heap 3) = ''first''"
    by (simp add: example_objects)
  have two: "outcome (parse_args (example_parser [[3, 4]]) example_heap [''x''])
       = Inl (ArgParseError (''Missing required positional argument: '' @ ''second''))"
    by (simp add: parse_steps example_parser_simps example_objects scan.simps read_values.simps)
  from missing_positional_fails [of "example_parser [[3]]" example_heap _ _ "[]" _ 3] hyps name two
  show ?thesis by simp
qed

section \<open>The reset comes before the scan\<close>

lemma read_values_vals:
  "read_values toks i mx n vs = Inr (k, vals) \<Longrightarrow> set vs \<subseteq> set toks \<Longrightarrow> set vals \<subseteq> set toks"
proof (induction toks i mx n vs rule: read_values.induct)
  case (1 toks i mx n vs)
  show ?case
  proof (cases "n < mx \<and> i + 1 + n < length toks \<and> \<not> is_argument (toks ! (i + 1 + n))")
    case True
    with "1.prems"(1)
    have rec: "read_values toks i mx (n + 1) (vs @ [toks ! (i + 1 + n)]) = Inr (k, vals)"
      by (subst (asm) read_values.simps) (simp add: Let_def)
    from True have mem: "toks ! (i + 1 + n) \<in> set toks" by (intro nth_mem) simp
    with "1.prems"(2) have sub: "set (vs @ [toks ! (i + 1 + n)]) \<subseteq> set toks"
      by simp
    from True rec sub mem show ?thesis by (intro "1.IH") (auto simp: Let_def)
  next
    case False
    with "1.prems"(1) have "vals = vs"
      by (subst (asm) read_values.simps) (auto simp: Let_def split: if_splits)
    with "1.prems"(2) show ?thesis by simp
  qed
qed

lemma process_token_heap:
  assumes "process_token toks m st = Inr st'"
  shows "hp st' = hp st
     \<or> (\<exists>arg v. v \<in> set toks \<and> hp st' = (hp st)(arg := (hp st arg)\<lparr>dest := v\<rparr>))"
proof (cases "m (toks ! idx st)")
  case None
  with assms show ?thesis
    by (auto simp: process_token_def Let_def split: list.splits)
next
  case (Some arg)
  show ?thesis
  proof (cases "action (hp st arg) = STORE")
    case False
    from flag_consumes_nothing [where toks = toks and m = m and st = st and arg = arg, OF Some False]
      assms
    show ?thesis by auto
  next
    case True
    with Some assms obtain mx n vals this' where
      rv: "read_values toks (idx st) mx 0 [] = Inr (n, vals)"
      and one: "length vals = 1"
      and set: "set_dest_to_value_from_str (vals ! 0) (hp st arg) = Inr this'"
      and st': "hp st' = (hp st)(arg := this')"
      by (auto simp: process_token_def Let_def assert_that_def
               split: if_splits sum.splits prod.splits)
    from read_values_vals [OF rv] have "set vals \<subseteq> set toks" by simp
    moreover from one have "vals ! 0 \<in> set vals" by (cases vals) simp_all
    ultimately have "vals ! 0 \<in> set toks" by blast
    moreover from set have "this' = (hp st arg)\<lparr>dest := vals ! 0\<rparr>"
      by (auto simp: set_dest_to_value_from_str_def split: if_splits)
    ultimately show ?thesis using st' by blast
  qed
qed

lemma dest_written_refl: "dest_written toks h h"
  by (simp add: dest_written_def)

lemma dest_written_trans:
  assumes "dest_written toks h h1" "dest_written toks h1 h2"
  shows "dest_written toks h h2"
  unfolding dest_written_def
proof
  fix a
  from assms(1) have first: "h1 a = h a \<or> (\<exists>v \<in> set toks. h1 a = (h a)\<lparr>dest := v\<rparr>)"
    by (simp add: dest_written_def)
  from assms(2) have second: "h2 a = h1 a \<or> (\<exists>v \<in> set toks. h2 a = (h1 a)\<lparr>dest := v\<rparr>)"
    by (simp add: dest_written_def)
  from first second show "h2 a = h a \<or> (\<exists>v \<in> set toks. h2 a = (h a)\<lparr>dest := v\<rparr>)"
    by auto
qed

lemma process_token_dest_written:
  assumes "process_token toks m st = Inr st'"
  shows "dest_written toks (hp st) (hp st')"
proof -
  from process_token_heap [OF assms] show ?thesis
  proof
    assume "hp st' = hp st"
    then show ?thesis by (simp add: dest_written_refl)
  next
    assume "\<exists>arg v. v \<in> set toks \<and> hp st' = (hp st)(arg := (hp st arg)\<lparr>dest := v\<rparr>)"
    then obtain arg v where v: "v \<in> set toks"
      and upd: "hp st' = (hp st)(arg := (hp st arg)\<lparr>dest := v\<rparr>)"
      by blast
    show ?thesis
      unfolding dest_written_def
    proof
      fix a
      show "hp st' a = hp st a \<or> (\<exists>v \<in> set toks. hp st' a = (hp st a)\<lparr>dest := v\<rparr>)"
      proof (cases "a = arg")
        case True
        with upd have "hp st' a = (hp st a)\<lparr>dest := v\<rparr>" by simp
        with v show ?thesis by blast
      next
        case False
        with upd show ?thesis by simp
      qed
    qed
  qed
qed

lemma scan_dest_written:
  "(scan toks m st = Inl (e, h') \<longrightarrow> dest_written toks (hp st) h')
   \<and> (scan toks m st = Inr st' \<longrightarrow> dest_written toks (hp st) (hp st'))"
proof (induction toks m st rule: scan.induct)
  case (1 toks m st)
  show ?case
  proof (cases "idx st < length toks")
    case False
    then have "scan toks m st = Inr st" by (subst scan.simps) simp
    then show ?thesis by (auto simp: dest_written_refl)
  next
    case True
    show ?thesis
    proof (cases "process_token toks m st")
      case (Inl e1)
      with True have "scan toks m st = Inl (e1, hp st)" by (rule scan_throws)
      then show ?thesis by (auto simp: dest_written_refl)
    next
      case (Inr st1)
      from scan_steps [OF True Inr]
      have eq: "scan toks m st = scan toks m (st1\<lparr>idx := idx st1 + 1\<rparr>)" .
      from process_token_dest_written [OF Inr]
      have step: "dest_written toks (hp st) (hp (st1\<lparr>idx := idx st1 + 1\<rparr>))" by simp
      from "1.IH" [OF True Inr] step show ?thesis
        unfolding eq by (blast intro: dest_written_trans)
    qed
  qed
qed

text \<open>
  C5: at the start of every \<open>parse_args\<close> call, before any input token is examined, every
  registered Argument with a configured default has its destination set to that default,
  and the reset writes nothing but these destinations.  The look-up and the scan of the
  tokens run on the reset heap: the result of \<open>parse_args\<close> is the result of the scan
  started on it, and the heap the call leaves is the reset heap with values of the
  tokens written into destinations.  With no token to examine it is exactly the reset
  heap.  A value bound by the scan is not overwritten by the default: for the input of an
  option and its value, the destination holds the value.  So destination state does not
  leak from one call into the next: two heaps that differ only in the destinations of
  registered Arguments with a default give the same result, for every token list.
\<close>

theorem defaults_reset_at_start:
  "(\<forall>a \<in> set (registered parser). default_set (h a) \<longrightarrow>
       dest (reset_defaults (argument_groups parser) h a) = default_value (h a))
   \<and> (\<forall>a. reset_defaults (argument_groups parser) h a = h a
          \<or> reset_defaults (argument_groups parser) h a = (h a)\<lparr>dest := default_value (h a)\<rparr>)
   \<and> final_heap (parse_args parser h []) = reset_defaults (argument_groups parser) h
   \<and> ((\<forall>a. h' a = h a \<or>
            (a \<in> set (registered parser) \<and> default_set (h a) \<and> h' a = (h a)\<lparr>dest := dest (h' a)\<rparr>))
        \<longrightarrow> parse_args parser h' arg_strs = parse_args parser h arg_strs)
   \<and> (lookup_groups (argument_groups parser) (reset_defaults (argument_groups parser) h)
          (Map.empty, []) = Inr (m, pos) \<longrightarrow>
        parse_args parser h arg_strs
          = (case scan arg_strs m
                    \<lparr>idx = 0, positional_args = pos, specified_arguments = [],
                     hp = reset_defaults (argument_groups parser) h\<rparr> of
               Inl eh \<Rightarrow> Inl eh
             | Inr st \<Rightarrow> missing_positionals st))
   \<and> (lookup_groups (argument_groups parser) (reset_defaults (argument_groups parser) h)
          (Map.empty, []) = Inl e \<longrightarrow>
        parse_args parser h arg_strs = Inl (e, reset_defaults (argument_groups parser) h))
   \<and> (\<forall>a. final_heap (parse_args parser h arg_strs) a
              = reset_defaults (argument_groups parser) h a
          \<or> (\<exists>v \<in> set arg_strs. final_heap (parse_args parser h arg_strs) a
                = (reset_defaults (argument_groups parser) h a)\<lparr>dest := v\<rparr>))
   \<and> (lookup_groups (argument_groups parser) (reset_defaults (argument_groups parser) h)
          (Map.empty, []) = Inr (m, [])
        \<and> m opt = Some arg \<and> action (h arg) = STORE \<and> nargs (h arg) = CHR ''1''
        \<and> \<not> is_argument v \<and> (choices (h arg) = [] \<or> v \<in> set (choices (h arg))) \<longrightarrow>
        parse_args parser h [opt, v]
          = Inr ([arg], (reset_defaults (argument_groups parser) h)
                   (arg := (reset_defaults (argument_groups parser) h arg)\<lparr>dest := v\<rparr>)))"
proof -
  let ?gs = "argument_groups parser"
  let ?h1 = "reset_defaults ?gs h"
  have set_default: "\<forall>a \<in> set (registered parser). default_set (h a) \<longrightarrow>
       dest (?h1 a) = default_value (h a)"
    by (simp add: reset_defaults_eq registered_def)
  have only_dest: "\<forall>a. ?h1 a = h a \<or> ?h1 a = (h a)\<lparr>dest := default_value (h a)\<rparr>"
    by (simp add: reset_defaults_eq)
  have no_leak: "parse_args parser h' arg_strs = parse_args parser h arg_strs"
    if same: "\<forall>a. h' a = h a \<or>
            (a \<in> set (registered parser) \<and> default_set (h a) \<and> h' a = (h a)\<lparr>dest := dest (h' a)\<rparr>)"
  proof -
    have "reset_defaults ?gs h' a = ?h1 a" for a
    proof -
      from same have "h' a = h a \<or>
            (a \<in> set (registered parser) \<and> default_set (h a) \<and> h' a = (h a)\<lparr>dest := dest (h' a)\<rparr>)"
        by blast
      then show ?thesis
      proof
        assume "h' a = h a"
        then show ?thesis by (simp add: reset_defaults_eq)
      next
        assume stale: "a \<in> set (registered parser) \<and> default_set (h a)
            \<and> h' a = (h a)\<lparr>dest := dest (h' a)\<rparr>"
        then obtain d where d: "h' a = (h a)\<lparr>dest := d\<rparr>" by blast
        from stale have "a \<in> set (concat (map arguments ?gs))" "default_set (h a)"
          by (simp_all add: registered_def)
        then show ?thesis by (simp add: reset_defaults_eq d)
      qed
    qed
    then have "reset_defaults ?gs h' = ?h1" by (rule ext)
    then show ?thesis by (simp add: parse_args_def)
  qed
  have scanned: "parse_args parser h arg_strs
          = (case scan arg_strs m
                    \<lparr>idx = 0, positional_args = pos, specified_arguments = [], hp = ?h1\<rparr> of
               Inl eh \<Rightarrow> Inl eh
             | Inr st \<Rightarrow> missing_positionals st)"
    if "lookup_groups ?gs ?h1 (Map.empty, []) = Inr (m, pos)"
    using that by (simp add: parse_args_def)
  have refused: "parse_args parser h arg_strs = Inl (e, ?h1)"
    if "lookup_groups ?gs ?h1 (Map.empty, []) = Inl e"
    using that by (simp add: parse_args_def)
  have written: "dest_written arg_strs ?h1 (final_heap (parse_args parser h arg_strs))"
  proof (cases "lookup_groups ?gs ?h1 (Map.empty, [])")
    case (Inl e0)
    then show ?thesis by (simp add: parse_args_def final_heap_def dest_written_refl)
  next
    case (Inr tables)
    obtain m0 pos0 where tables: "tables = (m0, pos0)" by (cases tables)
    let ?st0 = "\<lparr>idx = 0, positional_args = pos0, specified_arguments = [], hp = ?h1\<rparr>"
    show ?thesis
    proof (cases "scan arg_strs m0 ?st0")
      case (Inl eh)
      obtain e1 h2 where eh: "eh = (e1, h2)" by (cases eh)
      from scan_dest_written [of arg_strs m0 ?st0 e1 h2] Inl eh
      have "dest_written arg_strs ?h1 h2" by simp
      with Inr tables Inl eh show ?thesis by (simp add: parse_args_def final_heap_def)
    next
      case scanned: (Inr st)
      from scan_dest_written [of arg_strs m0 ?st0 _ _ st] scanned
      have "dest_written arg_strs ?h1 (hp st)" by simp
      with Inr tables scanned show ?thesis
        by (simp add: parse_args_def final_heap_def missing_positionals_def split: list.splits)
    qed
  qed
  have value_kept: "parse_args parser h [opt, v]
          = Inr ([arg], ?h1(arg := (?h1 arg)\<lparr>dest := v\<rparr>))"
    if given: "lookup_groups ?gs ?h1 (Map.empty, []) = Inr (m, [])
        \<and> m opt = Some arg \<and> action (h arg) = STORE \<and> nargs (h arg) = CHR ''1''
        \<and> \<not> is_argument v \<and> (choices (h arg) = [] \<or> v \<in> set (choices (h arg)))"
  proof -
    let ?st0 = "\<lparr>idx = 0, positional_args = [], specified_arguments = [], hp = ?h1\<rparr>"
    have same: "action (?h1 arg) = action (h arg)" "nargs (?h1 arg) = nargs (h arg)"
      "choices (?h1 arg) = choices (h arg)"
      by (simp_all add: reset_defaults_eq)
    from given have hit: "m ([opt, v] ! idx ?st0) = Some arg" by simp
    from given same have store: "action (hp ?st0 arg) = STORE" "nargs (hp ?st0 arg) = CHR ''1''"
      by simp_all
    from given have next_tok: "idx ?st0 + 1 < length [opt, v]"
      "\<not> is_argument ([opt, v] ! (idx ?st0 + 1))"
      by simp_all
    from given same
    have "set_dest_to_value_from_str v (?h1 arg) = Inr ((?h1 arg)\<lparr>dest := v\<rparr>)"
      by (auto simp: set_dest_to_value_from_str_def)
    with process_token_store_one
      [where toks = "[opt, v]" and m = m and st = ?st0 and arg = arg, OF hit store next_tok]
    have step: "process_token [opt, v] m ?st0
        = Inr (?st0\<lparr>specified_arguments := [arg],
                     hp := ?h1(arg := (?h1 arg)\<lparr>dest := v\<rparr>), idx := 1\<rparr>)"
      by simp
    have "idx ?st0 < length [opt, v]" by simp
    from scan_steps [OF this step]
    have "scan [opt, v] m ?st0
        = Inr \<lparr>idx = 2, positional_args = [], specified_arguments = [arg],
                hp = ?h1(arg := (?h1 arg)\<lparr>dest := v\<rparr>)\<rparr>"
      by (simp add: scan_past_end)
    with given show ?thesis by (simp add: parse_args_def Let_def missing_positionals_def)
  qed
  show ?thesis
  proof (intro conjI impI)
    show "\<forall>a \<in> set (registered parser). default_set (h a) \<longrightarrow>
       dest (?h1 a) = default_value (h a)" by (rule set_default)
    show "\<forall>a. ?h1 a = h a \<or> ?h1 a = (h a)\<lparr>dest := default_value (h a)\<rparr>" by (rule only_dest)
    show "final_heap (parse_args parser h []) = ?h1"
      by (rule final_heap_no_tokens)
    show "parse_args parser h' arg_strs = parse_args parser h arg_strs"
      if "\<forall>a. h' a = h a \<or>
            (a \<in> set (registered parser) \<and> default_set (h a) \<and> h' a = (h a)\<lparr>dest := dest (h' a)\<rparr>)"
      using that by (rule no_leak)
    show "parse_args parser h arg_strs
          = (case scan arg_strs m
                    \<lparr>idx = 0, positional_args = pos, specified_arguments = [], hp = ?h1\<rparr> of
               Inl eh \<Rightarrow> Inl eh
             | Inr st \<Rightarrow> missing_positionals st)"
      if "lookup_groups ?gs ?h1 (Map.empty, []) = Inr (m, pos)"
      using that by (rule scanned)
    show "parse_args parser h arg_strs = Inl (e, ?h1)"
      if "lookup_groups ?gs ?h1 (Map.empty, []) = Inl e"
      using that by (rule refused)
    show "\<forall>a. final_heap (parse_args parser h arg_strs) a = ?h1 a
          \<or> (\<exists>v \<in> set arg_strs. final_heap (parse_args parser h arg_strs) a
                = (?h1 a)\<lparr>dest := v\<rparr>)"
      using written by (simp add: dest_written_def)
    show "parse_args parser h [opt, v]
          = Inr ([arg], ?h1(arg := (?h1 arg)\<lparr>dest := v\<rparr>))"
      if "lookup_groups ?gs ?h1 (Map.empty, []) = Inr (m, [])
        \<and> m opt = Some arg \<and> action (h arg) = STORE \<and> nargs (h arg) = CHR ''1''
        \<and> \<not> is_argument v \<and> (choices (h arg) = [] \<or> v \<in> set (choices (h arg)))"
      using that by (rule value_kept)
  qed
qed

theorem defaults_reset_at_start_witness:
  "8 \<in> set (registered (example_parser [[0], [8]]))
   \<and> default_set (example_heap 8)
   \<and> dest (example_heap 8) = ''9''
   \<and> dest (reset_defaults (argument_groups (example_parser [[0], [8]])) example_heap 8) = ''3''
   \<and> dest (final_heap (parse_args (example_parser [[0], [8]]) example_heap []) 8) = ''3''
   \<and> parse_args (example_parser [[0], [8]]) (example_heap(8 := opt_level\<lparr>dest := ''7''\<rparr>))
         [''--foo'', ''v'']
       = parse_args (example_parser [[0], [8]]) example_heap [''--foo'', ''v'']
   \<and> lookup_groups (argument_groups (example_parser [[0], [8]]))
        (reset_defaults (argument_groups (example_parser [[0], [8]])) example_heap) (Map.empty, [])
       = Inr ([''--foo'' \<mapsto> 0, ''-f'' \<mapsto> 0, ''--level'' \<mapsto> 8], [])
   \<and> action (example_heap 8) = STORE \<and> nargs (example_heap 8) = CHR ''1''
   \<and> \<not> is_argument ''5'' \<and> choices (example_heap 8) = []
   \<and> parse_args (example_parser [[0], [8]]) example_heap [''--level'', ''5'']
       = Inr ([8], (reset_defaults (argument_groups (example_parser [[0], [8]])) example_heap)
                (8 := (reset_defaults (argument_groups (example_parser [[0], [8]])) example_heap 8)
                        \<lparr>dest := ''5''\<rparr>))
   \<and> dest (final_heap (parse_args (example_parser [[0], [8]]) example_heap [''--level'', ''5'']) 8)
       = ''5''
   \<and> dest (final_heap (parse_args (example_parser [[0], [8]]) example_heap [''--foo'', ''v'']) 8)
       = ''3''"
proof -
  let ?P = "example_parser [[0], [8]]"
  let ?h' = "example_heap(8 := opt_level\<lparr>dest := ''7''\<rparr>)"
  let ?m = "[''--foo'' \<mapsto> 0 :: addr, ''-f'' \<mapsto> 0, ''--level'' \<mapsto> 8]"
  have same: "\<forall>a. ?h' a = example_heap a \<or>
      (a \<in> set (registered ?P) \<and> default_set (example_heap a)
       \<and> ?h' a = (example_heap a)\<lparr>dest := dest (?h' a)\<rparr>)"
    by (simp add: example_objects example_parser_simps)
  have tables: "lookup_groups (argument_groups ?P) (reset_defaults (argument_groups ?P) example_heap)
        (Map.empty, []) = Inr (?m, [])"
    by (simp add: example_parser_simps example_objects positional_def set_dest_to_default_def)
  have level: "8 \<in> set (registered ?P)" "default_set (example_heap 8)"
    "dest (example_heap 8) = ''9''" "default_value (example_heap 8) = ''3''"
    "action (example_heap 8) = STORE" "nargs (example_heap 8) = CHR ''1''"
    "choices (example_heap 8) = []" "?m ''--level'' = Some 8"
    by (simp_all add: example_objects example_parser_simps)
  have shape: "\<not> is_argument ''5''" by (simp add: is_argument_def)
  note inst = defaults_reset_at_start
    [of ?P example_heap ?h' "[''--foo'', ''v'']" ?m "[]" _ "''--level''" 8 "''5''"]
  from inst level have reset: "dest (reset_defaults (argument_groups ?P) example_heap 8) = ''3''"
    by simp
  from inst have empty: "final_heap (parse_args ?P example_heap [])
      = reset_defaults (argument_groups ?P) example_heap"
    by blast
  from inst same have no_leak: "parse_args ?P ?h' [''--foo'', ''v'']
      = parse_args ?P example_heap [''--foo'', ''v'']"
    by blast
  from inst tables level shape
  have kept: "parse_args ?P example_heap [''--level'', ''5'']
       = Inr ([8], (reset_defaults (argument_groups ?P) example_heap)
                (8 := (reset_defaults (argument_groups ?P) example_heap 8)\<lparr>dest := ''5''\<rparr>))"
    by blast
  then have five: "dest (final_heap (parse_args ?P example_heap [''--level'', ''5'']) 8) = ''5''"
    by (simp add: final_heap_def)
  have other: "dest (final_heap (parse_args ?P example_heap [''--foo'', ''v'']) 8) = ''3''"
    by (simp add: parse_steps example_parser_simps example_objects scan.simps read_values.simps)
  from level reset empty no_leak tables shape kept five other show ?thesis by simp
qed

end
